theory Spec2Isabelle
  imports Complex_Main
begin

section \<open>Python values shared by the models\<close>

text \<open>
  Exceptions of the Python source are values. A function of the source that can raise
  returns \<open>py_error + 'a\<close>, with \<open>Inl\<close> carrying the exception.
\<close>

datatype py_error =
    KeyError string
  | TypeError string
  | RateLimitExceeded string
  | JobNotFound string
  | OtherException string

text \<open>\<open>str(exc)\<close> for an exception built from one message.\<close>

fun str_exc :: "py_error \<Rightarrow> string" where
  "str_exc (KeyError m) = m"
| "str_exc (TypeError m) = m"
| "str_exc (RateLimitExceeded m) = m"
| "str_exc (JobNotFound m) = m"
| "str_exc (OtherException m) = m"

section \<open>app.py: LRUCache over collections.OrderedDict\<close>

text \<open>
  An \<open>OrderedDict\<close> is an association list with distinct keys, oldest entry first.
  \<open>key in d\<close> is \<open>map_of d key \<noteq> None\<close>.
\<close>

type_synonym ('k, 'v) ordered_dict = "('k \<times> 'v) list"

text \<open>\<open>OrderedDict.move_to_end(key)\<close>: KeyError when the key is absent.\<close>

definition move_to_end :: "('k, 'v) ordered_dict \<Rightarrow> 'k \<Rightarrow> py_error + ('k, 'v) ordered_dict" where
  "move_to_end d k =
     (case map_of d k of
        None \<Rightarrow> Inl (KeyError ''key'')
      | Some v \<Rightarrow> Inr (filter (\<lambda>p. fst p \<noteq> k) d @ [(k, v)]))"

text \<open>\<open>OrderedDict.popitem(last=False)\<close>: drops the first entry, KeyError when empty.\<close>

definition popitem_first :: "('k, 'v) ordered_dict \<Rightarrow> py_error + ('k, 'v) ordered_dict" where
  "popitem_first d = (case d of [] \<Rightarrow> Inl (KeyError ''dictionary is empty'') | _ # rest \<Rightarrow> Inr rest)"

text \<open>\<open>d[key] = value\<close>: an existing key keeps its position, a new key goes last.\<close>

definition setitem :: "('k, 'v) ordered_dict \<Rightarrow> 'k \<Rightarrow> 'v \<Rightarrow> ('k, 'v) ordered_dict" where
  "setitem d k v =
     (if map_of d k \<noteq> None then map (\<lambda>p. if fst p = k then (k, v) else p) d
      else d @ [(k, v)])"

record ('k, 'v) LRUCache =
  cache :: "('k, 'v) ordered_dict"
  max_size :: int

text \<open>\<open>LRUCache.__init__\<close>\<close>

definition LRUCache_init :: "int \<Rightarrow> ('k, 'v) LRUCache" where
  "LRUCache_init n = \<lparr>cache = [], max_size = n\<rparr>"

text \<open>\<open>LRUCache.get\<close>: the value (None when absent) and the cache after the call.\<close>

definition LRUCache_get :: "('k, 'v) LRUCache \<Rightarrow> 'k \<Rightarrow> py_error + ('v option \<times> ('k, 'v) LRUCache)" where
  "LRUCache_get c k =
     (if map_of (cache c) k \<noteq> None then
        (case move_to_end (cache c) k of
           Inl e \<Rightarrow> Inl e
         | Inr d \<Rightarrow> Inr (map_of d k, c\<lparr>cache := d\<rparr>))
      else Inr (None, c))"

text \<open>\<open>LRUCache.put\<close>\<close>

definition LRUCache_put :: "('k, 'v) LRUCache \<Rightarrow> 'k \<Rightarrow> 'v \<Rightarrow> py_error + ('k, 'v) LRUCache" where
  "LRUCache_put c k v =
     (if map_of (cache c) k \<noteq> None then
        (case move_to_end (cache c) k of
           Inl e \<Rightarrow> Inl e
         | Inr d \<Rightarrow> Inr (c\<lparr>cache := setitem d k v\<rparr>))
      else if int (length (cache c)) \<ge> max_size c then
        (case popitem_first (cache c) of
           Inl e \<Rightarrow> Inl e
         | Inr d \<Rightarrow> Inr (c\<lparr>cache := setitem d k v\<rparr>))
      else Inr (c\<lparr>cache := setitem (cache c) k v\<rparr>))"

text \<open>
  A sequence of calls on one cache. An exception ends the sequence, as it would
  propagate to the caller.
\<close>

datatype ('k, 'v) lru_op = Get 'k | Put 'k 'v

fun lru_step :: "('k, 'v) LRUCache \<Rightarrow> ('k, 'v) lru_op \<Rightarrow> py_error + ('k, 'v) LRUCache" where
  "lru_step c (Get k) = (case LRUCache_get c k of Inl e \<Rightarrow> Inl e | Inr (_, c') \<Rightarrow> Inr c')"
| "lru_step c (Put k v) = LRUCache_put c k v"

fun lru_run :: "('k, 'v) LRUCache \<Rightarrow> ('k, 'v) lru_op list \<Rightarrow> py_error + ('k, 'v) LRUCache" where
  "lru_run c [] = Inr c"
| "lru_run c (x # xs) = (case lru_step c x of Inl e \<Rightarrow> Inl e | Inr c' \<Rightarrow> lru_run c' xs)"

text \<open>
  The keys a sequence of calls accesses, in order: every \<open>put\<close>, and every \<open>get\<close>
  of a key that is present when the call is made (a \<open>get\<close> of an absent key touches
  nothing).
\<close>

fun accessed :: "('k, 'v) LRUCache \<Rightarrow> ('k, 'v) lru_op list \<Rightarrow> 'k list" where
  "accessed c [] = []"
| "accessed c (x # xs) =
     (case lru_step c x of
        Inl e \<Rightarrow> []
      | Inr c' \<Rightarrow>
          (case x of
             Get k \<Rightarrow> (if map_of (cache c) k \<noteq> None then [k] else [])
           | Put k v \<Rightarrow> [k]) @ accessed c' xs)"

text \<open>
  The keys of a history of accesses ordered by their last access, least recent first:
  each key once, at the position of its last occurrence.
\<close>

definition by_last_access :: "'k list \<Rightarrow> 'k list" where
  "by_last_access h = remdups h"

text \<open>The last \<open>n\<close> elements of a list.\<close>

definition last_n :: "nat \<Rightarrow> 'a list \<Rightarrow> 'a list" where
  "last_n n xs = drop (length xs - n) xs"

section \<open>scraper_runner.py: configuration, result and the in-process runner\<close>

record ScraperJobConfig =
  cfg_search_query :: string
  cfg_total_results :: int
  cfg_output_file :: string
  cfg_append_mode :: bool
  cfg_ultra_fast_append :: bool

record ScraperRunResult =
  success :: bool
  run_elapsed_seconds :: real
  error :: "py_error option"

text \<open>
  How Python binds the arguments of a call to a function declared with plain parameters
  (no \<open>*args\<close>, no \<open>**kwargs\<close>). A parameter is its name and whether it has a default;
  a call is its number of positional arguments and the names of its keyword arguments.
  Binding raises TypeError for too many positional arguments, for a keyword that names no
  parameter, for a parameter given twice, and for a parameter without default left unbound.
\<close>

definition bind_call :: "string \<Rightarrow> (string \<times> bool) list \<Rightarrow> nat \<Rightarrow> string list \<Rightarrow> py_error + unit" where
  "bind_call fname params npos kws =
     (if npos > length params then
        Inl (TypeError (fname @ ''() takes too many positional arguments''))
      else
        (case filter (\<lambda>k. k \<notin> set (map fst params)) kws of
           k # _ \<Rightarrow> Inl (TypeError (fname @ ''() got an unexpected keyword argument '' @ k))
         | [] \<Rightarrow>
            (case filter (\<lambda>k. k \<in> set (map fst (take npos params))) kws of
               k # _ \<Rightarrow> Inl (TypeError (fname @ ''() got multiple values for argument '' @ k))
             | [] \<Rightarrow>
                (case filter (\<lambda>p. \<not> snd p \<and> fst p \<notin> set kws) (drop npos params) of
                   p # _ \<Rightarrow> Inl (TypeError (fname @ ''() missing required argument '' @ fst p))
                 | [] \<Rightarrow> Inr ()))))"

text \<open>
  main.py, line 324:
  \<^verbatim>\<open>def scrape_places(search_for, total, output_path="result.csv", ultra_fast_append=False)\<close>
\<close>

definition scrape_places_params :: "(string \<times> bool) list" where
  "scrape_places_params =
     [(''search_for'', False), (''total'', False), (''output_path'', True), (''ultra_fast_append'', True)]"

text \<open>
  The call of \<open>scrape_places\<close> in \<open>InProcessScraperRunner.run\<close> (lines 68-76): two
  positional arguments and five keyword arguments.
\<close>

definition run_call_keywords :: "string list" where
  "run_call_keywords =
     [''output_path'', ''ultra_fast_append'', ''progress_callback'', ''metrics_callback'', ''record_callback'']"

text \<open>
  What a runner does, as the registry sees it: the callbacks it invokes, in order, and
  then either the result it returns or the exception it raises. Each callback carries the
  reading of \<open>time.time()\<close> taken while it is handled.
\<close>

record progress_payload =
  pl_progress :: "real option"
  pl_current :: "int option"
  pl_error_message :: "string option"
  pl_status :: "string option"
  pl_timestamp :: "real option"

record metrics_payload =
  pl_elapsed_seconds :: "real option"

type_synonym scraped_record = "(string \<times> string) list"

record record_payload =
  pl_records :: "scraped_record list option"
  pl_total_scraped :: "int option"

datatype callback =
    Progress real progress_payload
  | Metrics real metrics_payload
  | RecordBatch record_payload

type_synonym runner_behaviour = "callback list \<times> (py_error + ScraperRunResult)"

text \<open>
  \<open>self._last_total_scraped\<close> after the runner's wrappers \<open>handle_progress\<close> and
  \<open>handle_record\<close> have seen the callbacks: the last \<open>current\<close> or
  \<open>total_scraped\<close> that was not None.
\<close>

fun track_total_scraped :: "int option \<Rightarrow> callback \<Rightarrow> int option" where
  "track_total_scraped acc (Progress _ p) = (case pl_current p of None \<Rightarrow> acc | Some c \<Rightarrow> Some c)"
| "track_total_scraped acc (Metrics _ _) = acc"
| "track_total_scraped acc (RecordBatch p) = (case pl_total_scraped p of None \<Rightarrow> acc | Some n \<Rightarrow> Some n)"

definition last_total_scraped :: "callback list \<Rightarrow> int option" where
  "last_total_scraped calls = foldl track_total_scraped None calls"

text \<open>
  \<open>InProcessScraperRunner.run\<close>. The body of \<open>scrape_places\<close> is the parameter
  \<open>scrape_body\<close>: the callbacks it would cause and the places it would return or the
  exception it would raise, once its arguments are bound. The leftover records are saved
  and reported in one record batch. Every exception raised inside the \<open>try\<close> block
  becomes a result with \<open>success = False\<close>. \<open>t_start\<close> and \<open>t_end\<close> are the two
  readings of the clock.
\<close>

definition InProcessScraperRunner_run ::
  "(ScraperJobConfig \<Rightarrow> callback list \<times> (py_error + scraped_record list)) \<Rightarrow> real \<Rightarrow> real \<Rightarrow>
   ScraperJobConfig \<Rightarrow> runner_behaviour" where
  "InProcessScraperRunner_run scrape_body t_start t_end config =
     (case bind_call ''scrape_places'' scrape_places_params 2 run_call_keywords of
        Inl exc \<Rightarrow> ([], Inr \<lparr>success = False, run_elapsed_seconds = t_end - t_start, error = Some exc\<rparr>)
      | Inr _ \<Rightarrow>
          (case scrape_body config of
             (calls, Inl exc) \<Rightarrow>
               (calls, Inr \<lparr>success = False, run_elapsed_seconds = t_end - t_start, error = Some exc\<rparr>)
           | (calls, Inr leftover) \<Rightarrow>
               (calls @
                  (if leftover \<noteq> [] then
                     [RecordBatch \<lparr>pl_records = Some leftover,
                        pl_total_scraped =
                          Some (case last_total_scraped calls of
                                  None \<Rightarrow> int (length leftover) | Some n \<Rightarrow> n)\<rparr>]
                   else []),
                Inr \<lparr>success = True, run_elapsed_seconds = t_end - t_start, error = None\<rparr>)))"

section \<open>job_service.py: job state and the registry\<close>

text \<open>
  Timestamps (\<open>time.time()\<close>, \<open>datetime.utcnow()\<close>) are seconds as real numbers, on
  one clock. \<open>recent_records\<close> is a \<open>deque(maxlen=25)\<close>.
\<close>

record ScrapingJobState =
  job_id :: string
  search_query :: string
  total_results :: int
  output_file :: string
  append_mode :: bool
  fast_append :: bool
  status :: string
  progress :: real
  result_count :: int
  error_message :: "string option"
  start_time :: real
  end_time :: "real option"
  throughput_per_minute :: real
  eta_seconds :: "real option"
  elapsed_seconds :: real
  last_update :: "real option"
  progress_samples :: "(real \<times> int) list"
  recent_records :: "scraped_record list"

record JobService =
  jobs :: "(string, ScrapingJobState) ordered_dict"
  job_starts :: "real list"
  rate_limit :: int
  rate_limit_window :: int
  cleanup_after_seconds :: int
  metrics_window_seconds :: int
  max_concurrent_jobs :: int

text \<open>\<open>JobService.__init__\<close> with its default arguments.\<close>

definition JobService_init :: "int \<Rightarrow> int \<Rightarrow> int \<Rightarrow> int \<Rightarrow> int \<Rightarrow> JobService" where
  "JobService_init rl window cleanup metrics_window max_jobs =
     \<lparr>jobs = [], job_starts = [], rate_limit = rl, rate_limit_window = window,
      cleanup_after_seconds = cleanup, metrics_window_seconds = metrics_window,
      max_concurrent_jobs = max_jobs\<rparr>"

definition JobService_default :: JobService where
  "JobService_default = JobService_init 2 60 900 180 2"

text \<open>\<open>_update_metrics_locked\<close> (lines 279-295)\<close>

definition update_metrics_locked :: "ScrapingJobState \<Rightarrow> ScrapingJobState" where
  "update_metrics_locked job =
     (if length (progress_samples job) < 2 then
        job\<lparr>throughput_per_minute := 0, eta_seconds := None\<rparr>
      else
        (let (first_ts, first_count) = hd (progress_samples job);
             (last_ts, last_count) = last (progress_samples job);
             delta_count = last_count - first_count;
             delta_time = last_ts - first_ts
         in if delta_time \<le> 0 \<or> delta_count \<le> 0 then
              job\<lparr>throughput_per_minute := 0, eta_seconds := None\<rparr>
            else
              (let throughput_per_second = real_of_int delta_count / delta_time;
                   remaining = max (total_results job - result_count job) 0
               in job\<lparr>throughput_per_minute := throughput_per_second * 60,
                       eta_seconds :=
                         (if throughput_per_second > 0
                          then Some (real_of_int remaining / throughput_per_second)
                          else None)\<rparr>)))"

text \<open>\<open>_prune_progress_samples_locked\<close> (lines 271-277); the loop is \<open>dropWhile\<close>.\<close>

definition prune_progress_samples_locked :: "int \<Rightarrow> ScrapingJobState \<Rightarrow> ScrapingJobState" where
  "prune_progress_samples_locked window job =
     (if progress_samples job = [] then job
      else
        (let latest_ts = fst (last (progress_samples job));
             cutoff = latest_ts - real_of_int window
         in job\<lparr>progress_samples := dropWhile (\<lambda>s. fst s < cutoff) (progress_samples job)\<rparr>))"

text \<open>
  The body of \<open>_handle_progress\<close> under the lock (lines 188-200), on the job found.
  \<open>if error_message:\<close> and \<open>if status:\<close> test for a non-empty string.
\<close>

definition handle_progress_job :: "int \<Rightarrow> real \<Rightarrow> progress_payload \<Rightarrow> ScrapingJobState \<Rightarrow> ScrapingJobState" where
  "handle_progress_job window now payload job =
     (let job1 = job\<lparr>progress := (case pl_progress payload of None \<Rightarrow> progress job | Some x \<Rightarrow> x),
                     result_count := (case pl_current payload of None \<Rightarrow> result_count job | Some c \<Rightarrow> c)\<rparr>;
          job2 = (case pl_error_message payload of
                    None \<Rightarrow> job1
                  | Some m \<Rightarrow> if m \<noteq> [] then job1\<lparr>error_message := Some m\<rparr> else job1);
          job3 = (if pl_status payload \<noteq> None \<and> pl_status payload \<noteq> Some []
                  then job2\<lparr>status := the (pl_status payload)\<rparr>
                  else if status job2 = ''pending'' then job2\<lparr>status := ''running''\<rparr>
                  else job2);
          ts = (case pl_timestamp payload of None \<Rightarrow> now | Some t \<Rightarrow> t);
          job4 = job3\<lparr>last_update := Some ts,
                      progress_samples := progress_samples job3 @ [(ts, result_count job3)]\<rparr>
      in prune_progress_samples_locked window job4)"

text \<open>The body of \<open>_handle_metrics\<close> under the lock (lines 210-215).\<close>

definition handle_metrics_job :: "real \<Rightarrow> metrics_payload \<Rightarrow> ScrapingJobState \<Rightarrow> ScrapingJobState" where
  "handle_metrics_job now payload job =
     update_metrics_locked
       (job\<lparr>elapsed_seconds :=
              (case pl_elapsed_seconds payload of
                 Some elapsed \<Rightarrow> elapsed
               | None \<Rightarrow> now - start_time job)\<rparr>)"

text \<open>\<open>deque.append\<close> on a deque with \<open>maxlen=25\<close>.\<close>

definition deque_append :: "nat \<Rightarrow> 'a list \<Rightarrow> 'a \<Rightarrow> 'a list" where
  "deque_append maxlen d x = last_n maxlen (d @ [x])"

text \<open>The body of \<open>_handle_record_batch\<close> (lines 221-235).\<close>

definition handle_record_batch_job :: "record_payload \<Rightarrow> ScrapingJobState \<Rightarrow> ScrapingJobState" where
  "handle_record_batch_job payload job =
     (case pl_records payload of
        None \<Rightarrow> job
      | Some records \<Rightarrow>
          if records = [] then job
          else
            (let job1 = job\<lparr>recent_records := foldl (deque_append 25) (recent_records job) records\<rparr>
             in case pl_total_scraped payload of
                  None \<Rightarrow> job1
                | Some total_scraped \<Rightarrow> job1\<lparr>result_count := total_scraped\<rparr>))"

text \<open>One callback of the runner on the job it belongs to.\<close>

fun handle_callback_job :: "int \<Rightarrow> callback \<Rightarrow> ScrapingJobState \<Rightarrow> ScrapingJobState" where
  "handle_callback_job window (Progress now payload) job = handle_progress_job window now payload job"
| "handle_callback_job window (Metrics now payload) job = handle_metrics_job now payload job"
| "handle_callback_job window (RecordBatch payload) job = handle_record_batch_job payload job"

text \<open>
  The handlers as methods of the registry: \<open>self._jobs.get(job_id)\<close>, return when the
  job is absent, otherwise update it in place.
\<close>

definition handle_callback :: "string \<Rightarrow> callback \<Rightarrow> JobService \<Rightarrow> JobService" where
  "handle_callback jid cb svc =
     (case map_of (jobs svc) jid of
        None \<Rightarrow> svc
      | Some job \<Rightarrow>
          svc\<lparr>jobs := setitem (jobs svc) jid (handle_callback_job (metrics_window_seconds svc) cb job)\<rparr>)"

text \<open>
  The terminal section of \<open>_run_job\<close> under the lock (lines 163-175). \<open>finished\<close> is
  \<open>datetime.utcnow()\<close>, \<open>now\<close> is \<open>time.time()\<close>. An exception object is truthy.
\<close>

definition finish_job :: "real \<Rightarrow> real \<Rightarrow> ScraperRunResult \<Rightarrow> ScrapingJobState \<Rightarrow> ScrapingJobState" where
  "finish_job finished now result state =
     (let s1 = state\<lparr>end_time := Some finished, elapsed_seconds := finished - start_time state\<rparr>;
          s2 = (if status s1 \<noteq> ''interrupted'' \<and> status s1 \<noteq> ''failed''
                then (if success result then s1\<lparr>status := ''completed''\<rparr> else s1\<lparr>status := ''failed''\<rparr>)
                else s1);
          s3 = (if \<not> success result \<and> error result \<noteq> None
                then s2\<lparr>error_message := Some (str_exc (the (error result)))\<rparr>
                else s2);
          s4 = (if last_update s3 = None then s3\<lparr>last_update := Some now\<rparr> else s3)
      in update_metrics_locked s4)"

text \<open>\<open>_cleanup_finished_jobs_locked\<close> (lines 261-269)\<close>

definition cleanup_finished_jobs_locked :: "real \<Rightarrow> JobService \<Rightarrow> JobService" where
  "cleanup_finished_jobs_locked now svc =
     (let cutoff = now - real_of_int (cleanup_after_seconds svc)
      in svc\<lparr>jobs := filter (\<lambda>(jid, job). \<not> (end_time job \<noteq> None \<and> the (end_time job) < cutoff))
                        (jobs svc)\<rparr>)"

text \<open>
  \<open>_enforce_rate_limit_locked\<close> (lines 247-252). The queue keeps what the loop left
  also when the call raises.
\<close>

definition enforce_rate_limit_locked :: "real \<Rightarrow> JobService \<Rightarrow> (py_error + unit) \<times> JobService" where
  "enforce_rate_limit_locked now_ts svc =
     (let svc1 = svc\<lparr>job_starts :=
                      dropWhile (\<lambda>t. now_ts - t > real_of_int (rate_limit_window svc)) (job_starts svc)\<rparr>
      in if int (length (job_starts svc1)) \<ge> rate_limit svc1
         then (Inl (RateLimitExceeded ''Too many scraping jobs started recently''), svc1)
         else (Inr (), svc1))"

text \<open>\<open>_current_running_jobs_locked\<close>\<close>

definition current_running_jobs_locked :: "JobService \<Rightarrow> int" where
  "current_running_jobs_locked svc = int (length (filter (\<lambda>(jid, job). status job = ''running'') (jobs svc)))"

text \<open>
  \<open>start_job\<close>, the part under the lock (lines 93-110); the worker thread it then
  starts is \<open>run_job\<close> below. The clock is read five times.
\<close>

record start_clock =
  t_cleanup :: real
  t_limit :: real
  t_created :: real
  t_update :: real
  t_append :: real

definition start_job ::
  "start_clock \<Rightarrow> string \<Rightarrow> string \<Rightarrow> int \<Rightarrow> string \<Rightarrow> bool \<Rightarrow> bool \<Rightarrow> JobService \<Rightarrow>
   (py_error + ScrapingJobState) \<times> JobService" where
  "start_job clk jid query n_total out app fast svc =
     (let svc1 = cleanup_finished_jobs_locked (t_cleanup clk) svc
      in case enforce_rate_limit_locked (t_limit clk) svc1 of
           (Inl e, svc2) \<Rightarrow> (Inl e, svc2)
         | (Inr _, svc2) \<Rightarrow>
             if current_running_jobs_locked svc2 \<ge> max_concurrent_jobs svc2 then
               (Inl (RateLimitExceeded ''Maximum concurrent scraping jobs in progress''), svc2)
             else
               (let state = \<lparr>job_id = jid, search_query = query, total_results = n_total,
                              output_file = out, append_mode = app, fast_append = fast,
                              status = ''running'', progress = 0, result_count = 0,
                              error_message = None, start_time = t_created clk, end_time = None,
                              throughput_per_minute = 0, eta_seconds = None, elapsed_seconds = 0,
                              last_update = Some (t_update clk), progress_samples = [],
                              recent_records = []\<rparr>
                in (Inr state,
                    svc2\<lparr>jobs := setitem (jobs svc2) jid state,
                         job_starts := job_starts svc2 @ [t_append clk]\<rparr>)))"

text \<open>
  The terminal section of \<open>_run_job\<close> on the registry (lines 162-181): the state
  object of the job, registered under \<open>jid\<close>, is reconciled, then
  \<open>_cleanup_finished_jobs\<close> runs with the clock reading \<open>t_purge\<close>.
\<close>

definition finish_run :: "string \<Rightarrow> real \<Rightarrow> real \<Rightarrow> real \<Rightarrow> ScraperRunResult \<Rightarrow> JobService \<Rightarrow> JobService" where
  "finish_run jid finished now t_purge result svc =
     cleanup_finished_jobs_locked t_purge
       (case map_of (jobs svc) jid of
          None \<Rightarrow> svc
        | Some state \<Rightarrow> svc\<lparr>jobs := setitem (jobs svc) jid (finish_job finished now result state)\<rparr>)"

text \<open>
  \<open>_run_job\<close> (lines 152-181) for the job registered under \<open>jid\<close>. The runner is
  called outside any \<open>try\<close>: when it raises, the exception leaves \<open>_run_job\<close> and
  nothing after line 160 runs.
\<close>

definition run_job ::
  "runner_behaviour \<Rightarrow> real \<Rightarrow> real \<Rightarrow> real \<Rightarrow> string \<Rightarrow> JobService \<Rightarrow> (py_error + unit) \<times> JobService" where
  "run_job behaviour finished now t_purge jid svc =
     (let svc1 = foldl (\<lambda>s cb. handle_callback jid cb s) svc (fst behaviour)
      in case snd behaviour of
           Inl exc \<Rightarrow> (Inl exc, svc1)
         | Inr result \<Rightarrow> (Inr (), finish_run jid finished now t_purge result svc1))"

text \<open>
  The dataclass constructor \<open>ScrapingJobState(...)\<close> with its defaults;
  \<open>created\<close> is the \<open>datetime.utcnow()\<close> of the \<open>start_time\<close> default factory.
\<close>

definition ScrapingJobState_init ::
  "string \<Rightarrow> string \<Rightarrow> int \<Rightarrow> string \<Rightarrow> bool \<Rightarrow> bool \<Rightarrow> real \<Rightarrow> ScrapingJobState" where
  "ScrapingJobState_init jid query n_total out app fast created =
     \<lparr>job_id = jid, search_query = query, total_results = n_total,
      output_file = out, append_mode = app, fast_append = fast,
      status = ''pending'', progress = 0, result_count = 0,
      error_message = None, start_time = created, end_time = None,
      throughput_per_minute = 0, eta_seconds = None, elapsed_seconds = 0,
      last_update = None, progress_samples = [],
      recent_records = []\<rparr>"

text \<open>
  The states one job goes through: the state before each callback of its worker and after
  the last one, and then the state the terminal section of \<open>_run_job\<close> leaves.
\<close>

fun job_trace :: "int \<Rightarrow> ScrapingJobState \<Rightarrow> callback list \<Rightarrow> ScrapingJobState list" where
  "job_trace window s [] = [s]"
| "job_trace window s (cb # cbs) = s # job_trace window (handle_callback_job window cb s) cbs"

definition job_lifecycle ::
  "int \<Rightarrow> ScrapingJobState \<Rightarrow> callback list \<Rightarrow> real \<Rightarrow> real \<Rightarrow> ScraperRunResult \<Rightarrow> ScrapingJobState list" where
  "job_lifecycle window s calls finished now result =
     job_trace window s calls @ [finish_job finished now result (last (job_trace window s calls))]"

text \<open>
  The count a callback carries into \<open>result_count\<close>: \<open>current\<close> of a progress
  payload, \<open>total_scraped\<close> of a record batch that has records.
\<close>

fun carried_count :: "callback \<Rightarrow> int option" where
  "carried_count (Progress _ p) = pl_current p"
| "carried_count (Metrics _ _) = None"
| "carried_count (RecordBatch p) =
     (if pl_records p = None \<or> pl_records p = Some [] then None else pl_total_scraped p)"

text \<open>
  What happens to a registry, one event at a time: a call of \<open>start_job\<close> (whether it
  is admitted or not), a callback of some job's worker, or the terminal section of some
  job's \<open>_run_job\<close>. Workers of different jobs interleave at this granularity, since
  each of these runs under the lock.
\<close>

datatype svc_event =
    Submit start_clock string string int string bool bool
  | Callback string callback
  | Finish string real real real ScraperRunResult

fun apply_event :: "JobService \<Rightarrow> svc_event \<Rightarrow> JobService" where
  "apply_event svc (Submit clk jid query n_total out app fast) =
     snd (start_job clk jid query n_total out app fast svc)"
| "apply_event svc (Callback jid cb) = handle_callback jid cb svc"
| "apply_event svc (Finish jid finished now t_purge result) =
     finish_run jid finished now t_purge result svc"

definition run_events :: "JobService \<Rightarrow> svc_event list \<Rightarrow> JobService" where
  "run_events svc evs = foldl apply_event svc evs"

text \<open>The timestamps of the submissions that were admitted, in order.\<close>

fun admitted_at :: "JobService \<Rightarrow> svc_event \<Rightarrow> real list" where
  "admitted_at svc (Submit clk jid query n_total out app fast) =
     (case fst (start_job clk jid query n_total out app fast svc) of
        Inl _ \<Rightarrow> []
      | Inr _ \<Rightarrow> [t_append clk])"
| "admitted_at svc (Callback jid cb) = []"
| "admitted_at svc (Finish jid finished now t_purge result) = []"

fun admitted_starts :: "JobService \<Rightarrow> svc_event list \<Rightarrow> real list" where
  "admitted_starts svc [] = []"
| "admitted_starts svc (ev # evs) = admitted_at svc ev @ admitted_starts (apply_event svc ev) evs"

text \<open>
  The readings of the clock that the rate limiter of each \<open>start_job\<close> call uses, in
  the order they are taken: \<open>now_ts\<close> of the check, then the timestamp appended.
\<close>

fun submit_times :: "svc_event list \<Rightarrow> real list" where
  "submit_times [] = []"
| "submit_times (Submit clk jid query n_total out app fast # evs) =
     t_limit clk # t_append clk # submit_times evs"
| "submit_times (_ # evs) = submit_times evs"

text \<open>The terminal statuses of a job: \<open>completed\<close>, \<open>failed\<close>, \<open>interrupted\<close>.\<close>

definition terminal :: "string \<Rightarrow> bool" where
  "terminal st = (st = ''completed'' \<or> st = ''failed'' \<or> st = ''interrupted'')"

section \<open>main.py: checkpoints and the start of scrape_places\<close>

text \<open>
  What the code asks of the file system: whether a path exists, the size of a file, and
  the two counts of existing records (\<open>get_existing_data_count\<close> and
  \<open>get_existing_data_count_lightning\<close> read the file; here the file system answers
  for each path what they return).
\<close>

record file_system =
  path_exists :: "string \<Rightarrow> bool"
  path_getsize :: "string \<Rightarrow> int"
  existing_data_count :: "string \<Rightarrow> int"
  existing_data_count_lightning :: "string \<Rightarrow> int"

record ScrapingCache =
  sc_search_query :: string
  sc_output_file :: string
  sc_total_target :: int
  scraped_count :: int
  last_scraped_index :: int
  sc_timestamp :: string
  cache_id :: string

text \<open>
  \<open>CacheManager.generate_cache_id\<close> (lines 45-48). \<open>hashlib.md5(...).hexdigest()\<close>
  is the parameter \<open>md5_hexdigest\<close>; strings are byte strings.
\<close>

definition generate_cache_id :: "(string \<Rightarrow> string) \<Rightarrow> string \<Rightarrow> string \<Rightarrow> string" where
  "generate_cache_id md5_hexdigest search_for output_path =
     md5_hexdigest (search_for @ ''_'' @ output_path)"

text \<open>
  The cache directory: the checkpoint stored in \<open><cache_id>.json\<close>, if that file
  exists. \<open>save_cache\<close> (lines 50-69), \<open>load_cache\<close> (lines 71-92) and
  \<open>clear_cache\<close> (lines 94-101); \<open>now_iso\<close> is \<open>datetime.now().isoformat()\<close>.
  A checkpoint file that cannot be read or parsed makes \<open>load_cache\<close> return None
  and stays where it is: here it is a file that is absent.
\<close>

type_synonym cache_dir = "string \<Rightarrow> ScrapingCache option"

definition save_cache ::
  "(string \<Rightarrow> string) \<Rightarrow> string \<Rightarrow> cache_dir \<Rightarrow> string \<Rightarrow> string \<Rightarrow> int \<Rightarrow> int \<Rightarrow> int \<Rightarrow> string \<times> cache_dir" where
  "save_cache md5_hexdigest now_iso dir search_for output_path n_total n_scraped last_index =
     (let cid = generate_cache_id md5_hexdigest search_for output_path
      in (cid,
          dir(cid \<mapsto> \<lparr>sc_search_query = search_for, sc_output_file = output_path,
                       sc_total_target = n_total, scraped_count = n_scraped,
                       last_scraped_index = last_index, sc_timestamp = now_iso,
                       cache_id = cid\<rparr>)))"

definition load_cache ::
  "(string \<Rightarrow> string) \<Rightarrow> file_system \<Rightarrow> cache_dir \<Rightarrow> string \<Rightarrow> string \<Rightarrow> ScrapingCache option \<times> cache_dir" where
  "load_cache md5_hexdigest fs dir search_for output_path =
     (let cid = generate_cache_id md5_hexdigest search_for output_path
      in case dir cid of
           None \<Rightarrow> (None, dir)
         | Some cache_data \<Rightarrow>
             if path_exists fs (sc_output_file cache_data) then (Some cache_data, dir)
             else (None, dir(cid := None)))"

definition clear_cache :: "(string \<Rightarrow> string) \<Rightarrow> cache_dir \<Rightarrow> string \<Rightarrow> string \<Rightarrow> cache_dir" where
  "clear_cache md5_hexdigest dir search_for output_path =
     dir(generate_cache_id md5_hexdigest search_for output_path := None)"



section \<open>app.py: the duplicate check\<close>

text \<open>\<open>str.lower()\<close> on ASCII letters, and \<open>str(n)\<close> of an integer.\<close>

definition lower_char :: "char \<Rightarrow> char" where
  "lower_char c =
     (case map_of (zip ''ABCDEFGHIJKLMNOPQRSTUVWXYZ'' ''abcdefghijklmnopqrstuvwxyz'') c of
        None \<Rightarrow> c
      | Some l \<Rightarrow> l)"

definition lower :: "string \<Rightarrow> string" where
  "lower s = map lower_char s"

function digits_of :: "nat \<Rightarrow> string" where
  "digits_of n =
     (if n < 10 then [''0123456789'' ! n]
      else digits_of (n div 10) @ [''0123456789'' ! (n mod 10)])"
  by pat_completeness auto
termination
  by (relation "measure id") auto

declare digits_of.simps [simp del]

definition str_int :: "int \<Rightarrow> string" where
  "str_int i = (if i < 0 then CHR ''-'' # digits_of (nat (- i)) else digits_of (nat i))"

text \<open>
  A verdict is \<open>(is_duplicate, count)\<close>, each of which can be None. The layers below
  the memo (\<open>_check_content_fingerprint\<close>, \<open>_check_duplicate_streaming\<close>,
  \<open>_check_duplicate_cached_pandas\<close>) read the file and catch their own exceptions;
  they are parameters: what each returns for its arguments.
\<close>

type_synonym verdict = "bool option \<times> int option"

record duplicate_layers =
  content_fingerprint :: "string \<Rightarrow> string \<Rightarrow> string list \<Rightarrow> int \<Rightarrow> verdict"
  duplicate_streaming :: "string \<Rightarrow> string \<Rightarrow> string list \<Rightarrow> int \<Rightarrow> verdict"
  duplicate_cached_pandas :: "string \<Rightarrow> string \<Rightarrow> string list \<Rightarrow> verdict"

text \<open>The dict stored in the consolidated cache, and the cache (line 52).\<close>

record cached_verdict =
  is_duplicate :: bool
  verdict_count :: "int option"

definition duplicate_cache_init :: "(string, cached_verdict) LRUCache" where
  "duplicate_cache_init = LRUCache_init 200"

text \<open>The f-string of line 181.\<close>

definition cache_key :: "string \<Rightarrow> int \<Rightarrow> string \<Rightarrow> string" where
  "cache_key output_path file_size business_type =
     output_path @ '':'' @ str_int file_size @ '':'' @ lower business_type"

text \<open>
  \<open>check_duplicate_file\<close> (lines 170-207), with the consolidated cache passed in and
  returned. Any exception inside the \<open>try\<close> gives \<open>(False, None)\<close>.
\<close>

definition check_duplicate_file ::
  "file_system \<Rightarrow> duplicate_layers \<Rightarrow> (string, cached_verdict) LRUCache \<Rightarrow>
   string \<Rightarrow> string list \<Rightarrow> string \<Rightarrow> verdict \<times> (string, cached_verdict) LRUCache" where
  "check_duplicate_file fs layers dc business_type areas output_path =
     (if \<not> path_exists fs output_path then ((Some False, None), dc)
      else
        (let file_size = path_getsize fs output_path
         in if file_size = 0 then ((Some False, None), dc)
            else
              (let key = cache_key output_path file_size business_type
               in case LRUCache_get dc key of
                    Inl e \<Rightarrow> ((Some False, None), dc)
                  | Inr (Some cached_result, dc1) \<Rightarrow>
                      ((Some (is_duplicate cached_result), verdict_count cached_result), dc1)
                  | Inr (None, dc1) \<Rightarrow>
                      (case content_fingerprint layers output_path business_type areas file_size of
                         (Some dup, cnt) \<Rightarrow>
                           (case LRUCache_put dc1 key \<lparr>is_duplicate = dup, verdict_count = cnt\<rparr> of
                              Inl e \<Rightarrow> ((Some False, None), dc1)
                            | Inr dc2 \<Rightarrow> ((Some dup, cnt), dc2))
                       | (None, cnt) \<Rightarrow>
                           if file_size > 1024 * 1024
                           then (duplicate_streaming layers output_path business_type areas file_size, dc1)
                           else (duplicate_cached_pandas layers output_path business_type areas, dc1)))))"

section \<open>Notions used in the proofs about admission\<close>

text \<open>
  The queue \<open>_enforce_rate_limit_locked\<close> leaves at time \<open>now\<close>, and whether a call
  of \<open>start_job\<close> passes both checks.
\<close>

definition kept_starts :: "real \<Rightarrow> JobService \<Rightarrow> real list" where
  "kept_starts now svc =
     dropWhile (\<lambda>t. now - t > real_of_int (rate_limit_window svc)) (job_starts svc)"

definition admits :: "start_clock \<Rightarrow> JobService \<Rightarrow> bool" where
  "admits clk svc \<longleftrightarrow>
     \<not> (rate_limit svc \<le> int (length (kept_starts (t_limit clk) svc)) \<or>
        max_concurrent_jobs svc \<le>
          current_running_jobs_locked (cleanup_finished_jobs_locked (t_cleanup clk) svc))"

text \<open>
  The queue against the history \<open>H\<close> of admitted submissions at a time \<open>lo\<close>:
  the queue is a suffix of the history, and what it has lost had expired by \<open>lo\<close>.
\<close>

definition queue_inv :: "JobService \<Rightarrow> real list \<Rightarrow> real \<Rightarrow> bool" where
  "queue_inv svc H lo \<longleftrightarrow>
     sorted H \<and> (\<forall>x \<in> set H. x \<le> lo) \<and>
     (\<exists>P. H = P @ job_starts svc \<and> (\<forall>x \<in> set P. lo - x > real_of_int (rate_limit_window svc)))"

section \<open>Properties of LRUCache\<close>

lemma map_of_filter_other:
  "map_of (filter (\<lambda>p. fst p \<noteq> k) d) k = None"
  by (induction d) auto

lemma remdups_snoc: "remdups (h @ [k]) = filter (\<lambda>x. x \<noteq> k) (remdups h) @ [k]"
  by (induction h) auto

lemma map_fst_setitem_new: "map_of d k = None \<Longrightarrow> map fst (setitem d k v) = map fst d @ [k]"
  by (simp add: setitem_def)

lemma map_fst_setitem_old: "map_of d k \<noteq> None \<Longrightarrow> map fst (setitem d k v) = map fst d"
  by (induction d) (auto simp: setitem_def)

lemma map_of_None_iff: "map_of d k = None \<longleftrightarrow> k \<notin> set (map fst d)"
  by (simp add: map_of_eq_None_iff)

lemma map_fst_filter_key: "map fst (filter (\<lambda>p. fst p \<noteq> k) d) = filter (\<lambda>x. x \<noteq> k) (map fst d)"
  by (induction d) auto

lemma move_to_end_keys:
  "map_of d k = Some v \<Longrightarrow>
   move_to_end d k = Inr (filter (\<lambda>p. fst p \<noteq> k) d @ [(k, v)])"
  by (simp add: move_to_end_def)

lemma put_keys:
  assumes "1 \<le> max_size c"
  shows "\<exists>c'. LRUCache_put c k v = Inr c' \<and> max_size c' = max_size c \<and>
     map fst (cache c') =
       (if k \<in> set (map fst (cache c)) then filter (\<lambda>x. x \<noteq> k) (map fst (cache c)) @ [k]
        else if int (length (cache c)) \<ge> max_size c then tl (map fst (cache c)) @ [k]
        else map fst (cache c) @ [k])"
proof (cases "map_of (cache c) k")
  case None
  then have notin: "k \<notin> set (map fst (cache c))" by (simp add: map_of_None_iff)
  show ?thesis
  proof (cases "int (length (cache c)) \<ge> max_size c")
    case True
    with assms obtain p rest where pr: "cache c = p # rest" by (cases "cache c") auto
    with None have "map_of rest k = None" by (auto split: if_splits)
    with None True pr notin show ?thesis
      by (simp add: LRUCache_put_def popitem_first_def map_fst_setitem_new)
  next
    case False
    with None notin show ?thesis
      by (simp add: LRUCache_put_def map_fst_setitem_new)
  qed
next
  case (Some w)
  then have isin: "k \<in> set (map fst (cache c))"
    by (metis map_of_None_iff option.distinct(1))
  have "map_of (filter (\<lambda>p. fst p \<noteq> k) (cache c) @ [(k, w)]) k \<noteq> None"
    by (simp add: map_of_filter_other)
  with Some isin show ?thesis
    by (simp add: LRUCache_put_def move_to_end_keys map_fst_setitem_old map_fst_filter_key del: map_of_append)
qed

lemma get_keys:
  "\<exists>r c'. LRUCache_get c k = Inr (r, c') \<and> max_size c' = max_size c \<and> r = map_of (cache c) k \<and>
     map fst (cache c') =
       (if k \<in> set (map fst (cache c)) then filter (\<lambda>x. x \<noteq> k) (map fst (cache c)) @ [k]
        else map fst (cache c))"
proof (cases "map_of (cache c) k")
  case None
  then have notin: "k \<notin> set (map fst (cache c))" by (simp add: map_of_None_iff)
  with None show ?thesis by (simp add: LRUCache_get_def)
next
  case (Some w)
  then have isin: "k \<in> set (map fst (cache c))"
    by (metis map_of_None_iff option.distinct(1))
  with Some show ?thesis
    by (simp add: LRUCache_get_def move_to_end_keys map_fst_filter_key map_of_filter_other map_add_def)
qed

lemma last_n_decomp: "xs = take (length xs - n) xs @ last_n n xs"
  by (simp add: last_n_def)

lemma length_last_n: "length (last_n n xs) = min n (length xs)"
  by (simp add: last_n_def)

lemma last_n_append_exact: "length ys = n \<Longrightarrow> last_n n (xs @ ys) = ys"
  by (simp add: last_n_def)

lemma last_n_short: "length xs \<le> n \<Longrightarrow> last_n n xs = xs"
  by (simp add: last_n_def)

lemma filter_absent: "k \<notin> set xs \<Longrightarrow> filter (\<lambda>x. x \<noteq> k) xs = xs"
  by (induction xs) auto

lemma length_filter_distinct_mem:
  "distinct xs \<Longrightarrow> k \<in> set xs \<Longrightarrow> Suc (length (filter (\<lambda>x. x \<noteq> k) xs)) = length xs"
  by (induction xs) (auto simp: filter_absent)

lemma touch_hit:
  assumes d: "distinct R" and k: "k \<in> set (last_n m R)"
  shows "last_n m (filter (\<lambda>x. x \<noteq> k) R @ [k]) = filter (\<lambda>x. x \<noteq> k) (last_n m R) @ [k]"
proof -
  define P where "P = take (length R - m) R"
  define K where "K = last_n m R"
  have R: "R = P @ K" unfolding P_def K_def by (rule last_n_decomp)
  from d R have dK: "distinct K" and disj: "set P \<inter> set K = {}" by auto
  from k disj have kP: "k \<notin> set P" by (auto simp: K_def)
  have lenK: "length K = min m (length R)" by (simp add: K_def length_last_n)
  have len: "Suc (length (filter (\<lambda>x. x \<noteq> k) K)) = length K"
    using dK k by (simp add: K_def[symmetric] length_filter_distinct_mem)
  have eq: "filter (\<lambda>x. x \<noteq> k) R @ [k] = P @ (filter (\<lambda>x. x \<noteq> k) K @ [k])"
    by (subst R) (simp add: filter_absent[OF kP])
  show ?thesis
  proof (cases "length R \<le> m")
    case True
    then have "P = []" by (simp add: P_def)
    moreover have "length (filter (\<lambda>x. x \<noteq> k) K @ [k]) \<le> m" using len lenK True by simp
    ultimately show ?thesis unfolding eq K_def[symmetric] by (simp add: last_n_short)
  next
    case False
    then have "length (filter (\<lambda>x. x \<noteq> k) K @ [k]) = m" using len lenK by simp
    then show ?thesis unfolding eq K_def[symmetric] by (rule last_n_append_exact)
  qed
qed

lemma touch_evict:
  assumes k: "k \<notin> set (last_n m R)" and full: "length (last_n m R) \<ge> m" and m: "1 \<le> m"
  shows "last_n m (filter (\<lambda>x. x \<noteq> k) R @ [k]) = tl (last_n m R) @ [k]"
proof -
  define P where "P = take (length R - m) R"
  define K where "K = last_n m R"
  have R: "R = P @ K" unfolding P_def K_def by (rule last_n_decomp)
  have lenK: "length K = m" using full by (simp add: K_def length_last_n)
  with m obtain x K' where K: "K = x # K'" by (cases K) auto
  have eq: "filter (\<lambda>x. x \<noteq> k) R @ [k] = (filter (\<lambda>x. x \<noteq> k) P @ [x]) @ (K' @ [k])"
    using k by (subst R) (auto simp add: K_def[symmetric] K filter_absent)
  have "length (K' @ [k]) = m" using lenK K by simp
  then have "last_n m ((filter (\<lambda>x. x \<noteq> k) P @ [x]) @ (K' @ [k])) = K' @ [k]"
    by (rule last_n_append_exact)
  then show ?thesis unfolding eq K_def[symmetric] K by simp
qed

lemma touch_grow:
  assumes k: "k \<notin> set (last_n m R)" and room: "length (last_n m R) < m"
  shows "last_n m (filter (\<lambda>x. x \<noteq> k) R @ [k]) = last_n m R @ [k]"
proof -
  from room have short: "length R < m" by (simp add: length_last_n)
  then have K: "last_n m R = R" by (simp add: last_n_short)
  with k have "filter (\<lambda>x. x \<noteq> k) R = R" by (simp add: filter_absent)
  with short K show ?thesis by (simp add: last_n_short)
qed

lemma distinct_last_n: "distinct xs \<Longrightarrow> distinct (last_n n xs)"
  by (simp add: last_n_def)

lemma lru_step_tracks_history:
  assumes n: "1 \<le> max_size c"
      and inv: "map fst (cache c) = last_n (nat (max_size c)) (by_last_access h)"
  shows "\<exists>c'. lru_step c x = Inr c' \<and> max_size c' = max_size c \<and>
           map fst (cache c') =
             last_n (nat (max_size c))
               (by_last_access (h @ (case x of Get k \<Rightarrow> (if map_of (cache c) k \<noteq> None then [k] else [])
                                            | Put k v \<Rightarrow> [k])))"
proof -
  let ?m = "nat (max_size c)"
  let ?R = "by_last_access h"
  have dR: "distinct ?R" by (simp add: by_last_access_def)
  have m1: "1 \<le> ?m" using n by simp
  have len_eq: "length (cache c) = length (last_n ?m ?R)"
    using inv by (metis length_map)
  have touch: "map fst (cache c') =
       (if k \<in> set (map fst (cache c)) then filter (\<lambda>x. x \<noteq> k) (map fst (cache c)) @ [k]
        else if int (length (cache c)) \<ge> max_size c then tl (map fst (cache c)) @ [k]
        else map fst (cache c) @ [k])
      \<Longrightarrow> map fst (cache c') = last_n ?m (by_last_access (h @ [k]))" for c' k
  proof -
    assume a: "map fst (cache c') =
       (if k \<in> set (map fst (cache c)) then filter (\<lambda>x. x \<noteq> k) (map fst (cache c)) @ [k]
        else if int (length (cache c)) \<ge> max_size c then tl (map fst (cache c)) @ [k]
        else map fst (cache c) @ [k])"
    have snoc: "by_last_access (h @ [k]) = filter (\<lambda>x. x \<noteq> k) ?R @ [k]"
      by (simp add: by_last_access_def remdups_snoc)
    show ?thesis
    proof (cases "k \<in> set (map fst (cache c))")
      case True
      then have "k \<in> set (last_n ?m ?R)" using inv by simp
      from touch_hit[OF dR this] True a show ?thesis by (simp add: snoc inv)
    next
      case False
      then have notin: "k \<notin> set (last_n ?m ?R)" using inv by simp
      show ?thesis
      proof (cases "int (length (cache c)) \<ge> max_size c")
        case True
        then have "length (last_n ?m ?R) \<ge> ?m" using len_eq by simp
        from touch_evict[OF notin this m1] True False a show ?thesis by (simp add: snoc inv)
      next
        case F2: False
        then have "length (last_n ?m ?R) < ?m" using len_eq by simp
        from touch_grow[OF notin this] F2 False a show ?thesis by (simp add: snoc inv)
      qed
    qed
  qed
  show ?thesis
  proof (cases x)
    case (Get k)
    from get_keys[of c k] obtain r c' where
      g: "LRUCache_get c k = Inr (r, c')" "max_size c' = max_size c"
         "map fst (cache c') =
            (if k \<in> set (map fst (cache c)) then filter (\<lambda>x. x \<noteq> k) (map fst (cache c)) @ [k]
             else map fst (cache c))" by blast
    show ?thesis
    proof (cases "map_of (cache c) k")
      case None
      then have "k \<notin> set (map fst (cache c))" by (simp add: map_of_None_iff)
      with g None Get show ?thesis by (simp add: inv)
    next
      case (Some w)
      then have isin: "k \<in> set (map fst (cache c))" by (metis map_of_None_iff option.distinct(1))
      with g(3) have "map fst (cache c') = last_n ?m (by_last_access (h @ [k]))"
        by (intro touch) simp
      with g Some Get show ?thesis by simp
    qed
  next
    case (Put k v)
    from put_keys[OF n, of k v] obtain c' where
      p: "LRUCache_put c k v = Inr c'" "max_size c' = max_size c"
         "map fst (cache c') =
           (if k \<in> set (map fst (cache c)) then filter (\<lambda>x. x \<noteq> k) (map fst (cache c)) @ [k]
            else if int (length (cache c)) \<ge> max_size c then tl (map fst (cache c)) @ [k]
            else map fst (cache c) @ [k])" by blast
    from touch[OF p(3)] p Put show ?thesis by simp
  qed
qed

lemma lru_run_tracks_history:
  assumes "1 \<le> max_size c"
      and "map fst (cache c) = last_n (nat (max_size c)) (by_last_access h)"
  shows "\<exists>c'. lru_run c ops = Inr c' \<and> max_size c' = max_size c \<and>
           map fst (cache c') = last_n (nat (max_size c)) (by_last_access (h @ accessed c ops))"
  using assms
proof (induction ops arbitrary: c h)
  case Nil
  then show ?case by simp
next
  case (Cons x xs)
  let ?t = "(case x of Get k \<Rightarrow> (if map_of (cache c) k \<noteq> None then [k] else []) | Put k v \<Rightarrow> [k])"
  from lru_step_tracks_history[OF Cons.prems] obtain c1 where
    s: "lru_step c x = Inr c1" "max_size c1 = max_size c"
       "map fst (cache c1) = last_n (nat (max_size c)) (by_last_access (h @ ?t))" by blast
  from Cons.IH[of c1 "h @ ?t"] s Cons.prems(1) obtain c' where
    r: "lru_run c1 xs = Inr c'" "max_size c' = max_size c1"
       "map fst (cache c') = last_n (nat (max_size c1)) (by_last_access ((h @ ?t) @ accessed c1 xs))"
    by auto
  from s r show ?case by simp
qed

text \<open>
  Claim C9. For every capacity of at least one entry (the consolidated duplicate cache
  has 200) and every sequence of \<open>get\<close> and \<open>put\<close> calls on an empty cache: no
  call raises, the number of stored entries never exceeds the capacity, the keys stay
  distinct, and the stored keys are exactly the most recently accessed ones, ordered by
  their last access. Hence a \<open>put\<close> of a new key into a full cache evicts the least
  recently accessed entry (lemma \<open>put_keys\<close>: the first of the list), and a
  \<open>get\<close> of a present key makes it the most recently used one (lemma
  \<open>get_keys\<close>: it moves to the end).
\<close>

theorem lru_cache_invariant:
  assumes "1 \<le> n"
  shows "\<exists>c. lru_run (LRUCache_init n) ops = Inr c
           \<and> max_size c = n
           \<and> int (length (cache c)) \<le> n
           \<and> distinct (map fst (cache c))
           \<and> map fst (cache c) = last_n (nat n) (by_last_access (accessed (LRUCache_init n) ops))"
proof -
  let ?c0 = "LRUCache_init n :: ('a, 'b) LRUCache"
  have m: "1 \<le> max_size ?c0" using assms by (simp add: LRUCache_init_def)
  have i: "map fst (cache ?c0) = last_n (nat (max_size ?c0)) (by_last_access [])"
    by (simp add: LRUCache_init_def last_n_def by_last_access_def)
  from lru_run_tracks_history[OF m i, of ops] obtain c where
    c: "lru_run ?c0 ops = Inr c" "max_size c = max_size ?c0"
       "map fst (cache c) = last_n (nat (max_size ?c0)) (by_last_access (accessed ?c0 ops))"
    by auto
  have ms: "max_size ?c0 = n" by (simp add: LRUCache_init_def)
  have "length (map fst (cache c)) \<le> nat n" unfolding c(3) ms by (simp add: length_last_n)
  then have len: "int (length (cache c)) \<le> n" using assms by simp
  have "distinct (map fst (cache c))" unfolding c(3)
    by (rule distinct_last_n) (simp add: by_last_access_def)
  with c len ms show ?thesis by simp
qed

theorem lru_cache_invariant_witness:
  "(1::int) \<le> 2 \<and>
   lru_run (LRUCache_init 2) [Put (1::nat) ''a'', Put 2 ''b'', Get 1, Put 3 ''c'', Get 2]
     = Inr \<lparr>cache = [(1, ''a''), (3, ''c'')], max_size = 2\<rparr> \<and>
   accessed (LRUCache_init 2) [Put (1::nat) ''a'', Put 2 ''b'', Get 1, Put 3 ''c'', Get 2] = [1, 2, 1, 3] \<and>
   last_n (nat 2) (by_last_access [1::nat, 2, 1, 3]) = [1, 3]"
  using lru_cache_invariant [of 2 "[Put (1::nat) ''a'', Put 2 ''b'', Get 1, Put 3 ''c'', Get 2]"]
  by (simp add: LRUCache_init_def LRUCache_put_def LRUCache_get_def move_to_end_def
      popitem_first_def setitem_def last_n_def by_last_access_def)


section \<open>Properties of the throughput estimator\<close>

lemma update_metrics_few:
  "length (progress_samples job) < 2 \<Longrightarrow>
   update_metrics_locked job = job\<lparr>throughput_per_minute := 0, eta_seconds := None\<rparr>"
  by (simp add: update_metrics_locked_def)

lemma update_metrics_flat:
  assumes "progress_samples job = (t0, c0) # mid @ [(t1, c1)]"
      and "t1 - t0 \<le> 0 \<or> c1 - c0 \<le> 0"
  shows "update_metrics_locked job = job\<lparr>throughput_per_minute := 0, eta_seconds := None\<rparr>"
  using assms by (auto simp add: update_metrics_locked_def)

lemma update_metrics_rate:
  assumes "progress_samples job = (t0, c0) # mid @ [(t1, c1)]"
      and "\<not> (t1 - t0 \<le> 0 \<or> c1 - c0 \<le> 0)"
  shows "update_metrics_locked job =
           job\<lparr>throughput_per_minute := (real_of_int (c1 - c0) / (t1 - t0)) * 60,
               eta_seconds := Some (real_of_int (max (total_results job - result_count job) 0)
                                     / (real_of_int (c1 - c0) / (t1 - t0)))\<rparr>"
proof -
  from assms(2) have pos: "0 < t1 - t0" "0 < c1 - c0" by auto
  then have "0 < real_of_int (c1 - c0) / (t1 - t0)" by simp
  with assms pos show ?thesis
    by (simp add: update_metrics_locked_def Let_def)
qed

text \<open>
  Claim C2. \<open>_update_metrics_locked\<close> changes only the throughput and the ETA of the
  job, and both are determined by the retained samples (the ETA also by the job's target
  and current count). With fewer than two samples the throughput is 0 and the ETA is
  None. With the oldest sample \<open>(t0, c0)\<close> and the newest \<open>(t1, c1)\<close>: when
  \<open>t1 - t0 \<le> 0\<close> or \<open>c1 - c0 \<le> 0\<close> the throughput is 0 and the ETA is None;
  otherwise the throughput per minute is \<open>((c1 - c0) / (t1 - t0)) * 60\<close> and the ETA
  is \<open>max (target - current) 0 / ((c1 - c0) / (t1 - t0))\<close>.
\<close>

theorem update_metrics_throughput_eta:
  "(length (progress_samples job) < 2 \<longrightarrow>
      throughput_per_minute (update_metrics_locked job) = 0 \<and>
      eta_seconds (update_metrics_locked job) = None)
   \<and> (\<forall>t0 c0 mid t1 c1.
        progress_samples job = (t0, c0) # mid @ [(t1, c1)] \<longrightarrow>
          (if t1 - t0 \<le> 0 \<or> c1 - c0 \<le> 0
           then throughput_per_minute (update_metrics_locked job) = 0 \<and>
                eta_seconds (update_metrics_locked job) = None
           else throughput_per_minute (update_metrics_locked job)
                  = (real_of_int (c1 - c0) / (t1 - t0)) * 60 \<and>
                eta_seconds (update_metrics_locked job)
                  = Some (real_of_int (max (total_results job - result_count job) 0)
                          / (real_of_int (c1 - c0) / (t1 - t0)))))
   \<and> update_metrics_locked job =
         job\<lparr>throughput_per_minute := throughput_per_minute (update_metrics_locked job),
             eta_seconds := eta_seconds (update_metrics_locked job)\<rparr>
   \<and> (\<forall>other.
         progress_samples other = progress_samples job \<and>
         total_results other = total_results job \<and>
         result_count other = result_count job \<longrightarrow>
           throughput_per_minute (update_metrics_locked other)
             = throughput_per_minute (update_metrics_locked job) \<and>
           eta_seconds (update_metrics_locked other) = eta_seconds (update_metrics_locked job))"
proof (intro conjI allI impI)
  assume "length (progress_samples job) < 2"
  then show "throughput_per_minute (update_metrics_locked job) = 0"
    and "eta_seconds (update_metrics_locked job) = None"
    by (simp_all add: update_metrics_few)
next
  fix t0 c0 mid t1 c1
  assume s: "progress_samples job = (t0, c0) # mid @ [(t1, c1)]"
  show "if t1 - t0 \<le> 0 \<or> c1 - c0 \<le> 0
        then throughput_per_minute (update_metrics_locked job) = 0 \<and>
             eta_seconds (update_metrics_locked job) = None
        else throughput_per_minute (update_metrics_locked job)
               = (real_of_int (c1 - c0) / (t1 - t0)) * 60 \<and>
             eta_seconds (update_metrics_locked job)
               = Some (real_of_int (max (total_results job - result_count job) 0)
                       / (real_of_int (c1 - c0) / (t1 - t0)))"
  proof (cases "t1 - t0 \<le> 0 \<or> c1 - c0 \<le> 0")
    case True
    with update_metrics_flat[OF s True] show ?thesis by simp
  next
    case False
    with update_metrics_rate[OF s False] show ?thesis by simp
  qed
next
  show "update_metrics_locked job =
         job\<lparr>throughput_per_minute := throughput_per_minute (update_metrics_locked job),
             eta_seconds := eta_seconds (update_metrics_locked job)\<rparr>"
    by (simp add: update_metrics_locked_def Let_def split: prod.splits)
next
  fix other :: ScrapingJobState
  assume "progress_samples other = progress_samples job \<and>
         total_results other = total_results job \<and>
         result_count other = result_count job"
  then show "throughput_per_minute (update_metrics_locked other)
             = throughput_per_minute (update_metrics_locked job)"
    and "eta_seconds (update_metrics_locked other) = eta_seconds (update_metrics_locked job)"
    by (simp_all add: update_metrics_locked_def Let_def split: prod.splits)
qed

theorem update_metrics_throughput_eta_witness:
  "progress_samples
     ((ScrapingJobState_init ''job-progress'' ''coffee shops'' 100 ''results.csv'' False False 0)
        \<lparr>result_count := 25, progress_samples := [(1000, 10), (1010, 25)]\<rparr>)
     = (1000, 10) # [] @ [(1010, 25)]
   \<and> throughput_per_minute (update_metrics_locked
       ((ScrapingJobState_init ''job-progress'' ''coffee shops'' 100 ''results.csv'' False False 0)
          \<lparr>result_count := 25, progress_samples := [(1000, 10), (1010, 25)]\<rparr>)) = 90
   \<and> eta_seconds (update_metrics_locked
       ((ScrapingJobState_init ''job-progress'' ''coffee shops'' 100 ''results.csv'' False False 0)
          \<lparr>result_count := 25, progress_samples := [(1000, 10), (1010, 25)]\<rparr>)) = Some 50
   \<and> throughput_per_minute (update_metrics_locked
       ((ScrapingJobState_init ''job-progress'' ''coffee shops'' 100 ''results.csv'' False False 0)
          \<lparr>result_count := 25, progress_samples := [(1000, 25), (1010, 25)]\<rparr>)) = 0
   \<and> eta_seconds (update_metrics_locked
       ((ScrapingJobState_init ''job-progress'' ''coffee shops'' 100 ''results.csv'' False False 0)
          \<lparr>result_count := 25, progress_samples := [(1000, 10)]\<rparr>)) = None"
proof -
  let ?j = "(ScrapingJobState_init ''job-progress'' ''coffee shops'' 100 ''results.csv'' False False 0)
        \<lparr>result_count := 25, progress_samples := [(1000, 10), (1010, 25)]\<rparr>"
  let ?j2 = "(ScrapingJobState_init ''job-progress'' ''coffee shops'' 100 ''results.csv'' False False 0)
        \<lparr>result_count := 25, progress_samples := [(1000, 25), (1010, 25)]\<rparr>"
  let ?j3 = "(ScrapingJobState_init ''job-progress'' ''coffee shops'' 100 ''results.csv'' False False 0)
        \<lparr>result_count := 25, progress_samples := [(1000, 10)]\<rparr>"
  have s: "progress_samples ?j = (1000, 10) # [] @ [(1010, 25)]" by simp
  have s2: "progress_samples ?j2 = (1000, 25) # [] @ [(1010, 25)]" by simp
  have s3: "length (progress_samples ?j3) < 2" by simp
  from update_metrics_throughput_eta[of ?j] s
  have a: "throughput_per_minute (update_metrics_locked ?j) = 90"
          "eta_seconds (update_metrics_locked ?j) = Some 50"
    by (simp_all add: ScrapingJobState_init_def)
  from update_metrics_throughput_eta[of ?j2] s2
  have b: "throughput_per_minute (update_metrics_locked ?j2) = 0"
    by simp
  from update_metrics_throughput_eta[of ?j3] s3
  have c: "eta_seconds (update_metrics_locked ?j3) = None"
    by simp
  from s a b c show ?thesis by simp
qed

section \<open>Properties of the in-process runner and of the terminal section\<close>

lemma scrape_places_call_fails:
  "bind_call ''scrape_places'' scrape_places_params 2 run_call_keywords =
     Inl (TypeError ''scrape_places() got an unexpected keyword argument progress_callback'')"
  by (simp add: bind_call_def scrape_places_params_def run_call_keywords_def)

lemma update_metrics_keeps:
  "status (update_metrics_locked j) = status j"
  "end_time (update_metrics_locked j) = end_time j"
  "error_message (update_metrics_locked j) = error_message j"
  "result_count (update_metrics_locked j) = result_count j"
  by (simp_all add: update_metrics_locked_def Let_def split: prod.splits)

lemma finish_job_end_time:
  "end_time (finish_job finished now result state) = Some finished"
  by (simp add: finish_job_def Let_def update_metrics_keeps)

lemma finish_job_status:
  "status (finish_job finished now result state) =
     (if status state = ''interrupted'' \<or> status state = ''failed'' then status state
      else if success result then ''completed'' else ''failed'')"
  by (simp add: finish_job_def Let_def update_metrics_keeps)

lemma finish_job_error_message:
  "error_message (finish_job finished now result state) =
     (if \<not> success result \<and> error result \<noteq> None then Some (str_exc (the (error result)))
      else error_message state)"
  by (simp add: finish_job_def Let_def update_metrics_keeps)

text \<open>
  Claim C4. For every job configuration, every behaviour the body of \<open>scrape_places\<close>
  could have and every reading of the clock, \<open>InProcessScraperRunner.run\<close> invokes
  no callback and returns a result with \<open>success = False\<close> that carries the TypeError
  of the call: \<open>scrape_places\<close> has no parameter \<open>progress_callback\<close>,
  \<open>metrics_callback\<close> or \<open>record_callback\<close>, so binding the arguments fails
  before the body runs, inside the \<open>try\<close> block. \<open>_run_job\<close> with this runner
  therefore always takes the failure branch of its terminal section: the job's status
  becomes \<open>failed\<close> (or stays \<open>interrupted\<close>), never \<open>completed\<close>, and its
  error message is the text of the TypeError.
\<close>

theorem in_process_runner_always_fails:
  "InProcessScraperRunner_run scrape_body t_start t_end config =
     ([], Inr \<lparr>success = False, run_elapsed_seconds = t_end - t_start,
               error = Some (TypeError
                 ''scrape_places() got an unexpected keyword argument progress_callback'')\<rparr>)
   \<and> run_job (InProcessScraperRunner_run scrape_body t_start t_end config)
        finished now t_purge jid svc
       = (Inr (),
          finish_run jid finished now t_purge
            \<lparr>success = False, run_elapsed_seconds = t_end - t_start,
             error = Some (TypeError
               ''scrape_places() got an unexpected keyword argument progress_callback'')\<rparr> svc)
   \<and> (status (finish_job finished now
          \<lparr>success = False, run_elapsed_seconds = t_end - t_start,
           error = Some (TypeError
             ''scrape_places() got an unexpected keyword argument progress_callback'')\<rparr> state)
          = ''failed''
        \<or> status (finish_job finished now
          \<lparr>success = False, run_elapsed_seconds = t_end - t_start,
           error = Some (TypeError
             ''scrape_places() got an unexpected keyword argument progress_callback'')\<rparr> state)
          = ''interrupted'')
   \<and> error_message (finish_job finished now
          \<lparr>success = False, run_elapsed_seconds = t_end - t_start,
           error = Some (TypeError
             ''scrape_places() got an unexpected keyword argument progress_callback'')\<rparr> state)
       = Some ''scrape_places() got an unexpected keyword argument progress_callback''"
proof -
  define r where "r = \<lparr>success = False, run_elapsed_seconds = t_end - t_start,
             error = Some (TypeError
               ''scrape_places() got an unexpected keyword argument progress_callback'')\<rparr>"
  have r: "\<not> success r"
    "error r = Some (TypeError ''scrape_places() got an unexpected keyword argument progress_callback'')"
    by (simp_all add: r_def)
  have run: "InProcessScraperRunner_run scrape_body t_start t_end config = ([], Inr r)"
    by (simp add: InProcessScraperRunner_run_def scrape_places_call_fails r_def)
  have job: "run_job ([], Inr r) finished now t_purge jid svc
               = (Inr (), finish_run jid finished now t_purge r svc)"
    by (simp add: run_job_def)
  have st: "status (finish_job finished now r state) = ''failed'' \<or>
            status (finish_job finished now r state) = ''interrupted''"
    unfolding finish_job_status using r(1) by simp
  have msg: "error_message (finish_job finished now r state)
       = Some ''scrape_places() got an unexpected keyword argument progress_callback''"
    unfolding finish_job_error_message using r by simp
  from run job st msg show ?thesis unfolding r_def[symmetric] by (simp only: simp_thms)
qed

section \<open>Properties of the callbacks\<close>

lemma prune_keeps:
  "result_count (prune_progress_samples_locked w j) = result_count j"
  "status (prune_progress_samples_locked w j) = status j"
  "end_time (prune_progress_samples_locked w j) = end_time j"
  by (simp_all add: prune_progress_samples_locked_def Let_def)

lemma handle_progress_result_count:
  "result_count (handle_progress_job w now p j) =
     (case pl_current p of None \<Rightarrow> result_count j | Some c \<Rightarrow> c)"
  by (simp add: handle_progress_job_def Let_def prune_keeps split: option.splits)

lemma handle_progress_end_time:
  "end_time (handle_progress_job w now p j) = end_time j"
  by (simp add: handle_progress_job_def Let_def prune_keeps split: option.splits)

lemma handle_progress_status:
  "status (handle_progress_job w now p j) =
     (if pl_status p \<noteq> None \<and> pl_status p \<noteq> Some [] then the (pl_status p)
      else if status j = ''pending'' then ''running'' else status j)"
  by (simp add: handle_progress_job_def Let_def prune_keeps split: option.splits)

lemma handle_metrics_keeps:
  "result_count (handle_metrics_job now p j) = result_count j"
  "status (handle_metrics_job now p j) = status j"
  "end_time (handle_metrics_job now p j) = end_time j"
  by (simp_all add: handle_metrics_job_def update_metrics_locked_def Let_def split: prod.splits)

lemma handle_record_batch_result_count:
  "result_count (handle_record_batch_job p j) =
     (case carried_count (RecordBatch p) of None \<Rightarrow> result_count j | Some c \<Rightarrow> c)"
  by (simp add: handle_record_batch_job_def Let_def split: option.splits)

lemma handle_record_batch_keeps:
  "status (handle_record_batch_job p j) = status j"
  "end_time (handle_record_batch_job p j) = end_time j"
  by (simp_all add: handle_record_batch_job_def Let_def split: option.splits)

lemma handle_callback_result_count:
  "result_count (handle_callback_job w cb j) =
     (case carried_count cb of None \<Rightarrow> result_count j | Some c \<Rightarrow> c)"
proof (cases cb)
  case (Progress now p)
  then show ?thesis by (simp add: handle_progress_result_count)
next
  case (Metrics now p)
  then show ?thesis by (simp add: handle_metrics_keeps)
next
  case (RecordBatch p)
  then show ?thesis by (simp only: handle_callback_job.simps handle_record_batch_result_count)
qed

lemma handle_callback_end_time:
  "end_time (handle_callback_job w cb j) = end_time j"
  by (cases cb) (simp_all add: handle_progress_end_time handle_metrics_keeps handle_record_batch_keeps)

lemma sorted_cons_trace:
  "sorted (map result_count (s0 # job_trace w s cbs)) \<longleftrightarrow>
   result_count s0 \<le> result_count s \<and> sorted (map result_count (job_trace w s cbs))"
  by (cases cbs) auto

lemma sorted_counts_trace:
  "sorted (map result_count (job_trace w s calls)) \<longleftrightarrow>
   sorted (result_count s # List.map_filter carried_count calls)"
proof (induction calls arbitrary: s)
  case Nil
  then show ?case by (simp add: List.map_filter_simps)
next
  case (Cons cb cbs)
  let ?s' = "handle_callback_job w cb s"
  have "sorted (map result_count (job_trace w s (cb # cbs))) \<longleftrightarrow>
        result_count s \<le> result_count ?s' \<and> sorted (map result_count (job_trace w ?s' cbs))"
    by (simp only: job_trace.simps sorted_cons_trace)
  also have "\<dots> \<longleftrightarrow> result_count s \<le> result_count ?s' \<and>
        sorted (result_count ?s' # List.map_filter carried_count cbs)"
    by (simp only: Cons.IH)
  also have "\<dots> \<longleftrightarrow> sorted (result_count s # List.map_filter carried_count (cb # cbs))"
    by (cases "carried_count cb") (auto simp: handle_callback_result_count List.map_filter_simps)
  finally show ?case .
qed

text \<open>
  Claim C6, as the code has it. After a callback, \<open>result_count\<close> is the count the
  callback carries (\<open>current\<close> of a progress payload, \<open>total_scraped\<close> of a
  record batch with records) when it carries one, and is unchanged otherwise; nothing
  compares it with the previous value. So across the successive callbacks of a job,
  whatever its status, \<open>result_count\<close> is non-decreasing exactly when the job's count
  followed by the carried counts is a non-decreasing sequence.
\<close>

theorem result_count_follows_payload:
  "result_count (handle_callback_job w cb job) =
     (case carried_count cb of None \<Rightarrow> result_count job | Some c \<Rightarrow> c)
   \<and> (sorted (map result_count (job_trace w job calls)) \<longleftrightarrow>
        sorted (result_count job # List.map_filter carried_count calls))"
  using handle_callback_result_count sorted_counts_trace by blast

text \<open>
  Claim C6 as stated fails: a running job that receives \<open>current = 10\<close> and then
  \<open>current = 5\<close> has \<open>result_count\<close> 0, 10, 5 while its status stays
  \<open>running\<close>.
\<close>

theorem result_count_decreases_counterexample:
  "map (\<lambda>s. (status s, result_count s))
     (job_trace 180
        ((ScrapingJobState_init ''job-1'' ''coffee'' 100 ''r.csv'' False False 0)\<lparr>status := ''running''\<rparr>)
        [Progress 1 \<lparr>pl_progress = Some 10, pl_current = Some 10, pl_error_message = None,
                     pl_status = None, pl_timestamp = Some 1\<rparr>,
         Progress 2 \<lparr>pl_progress = Some 5, pl_current = Some 5, pl_error_message = None,
                     pl_status = None, pl_timestamp = Some 2\<rparr>])
   = [(''running'', 0), (''running'', 10), (''running'', 5)]"
  by (simp add: ScrapingJobState_init_def handle_progress_status handle_progress_result_count)


section \<open>Properties of the job lifecycle\<close>

lemma handle_callback_status:
  "status (handle_callback_job w cb j) =
     (case cb of
        Progress now p \<Rightarrow>
          (if pl_status p \<noteq> None \<and> pl_status p \<noteq> Some [] then the (pl_status p)
           else if status j = ''pending'' then ''running'' else status j)
      | _ \<Rightarrow> status j)"
  by (cases cb) (simp_all add: handle_progress_status handle_metrics_keeps handle_record_batch_keeps)

lemma job_trace_end_time:
  "s \<in> set (job_trace w s0 calls) \<Longrightarrow> end_time s = end_time s0"
  by (induction calls arbitrary: s0) (auto simp: handle_callback_end_time)

lemma finish_job_terminal:
  "status (finish_job finished now result state) = ''completed'' \<or>
   status (finish_job finished now result state) = ''failed'' \<or>
   status (finish_job finished now result state) = ''interrupted''"
  by (simp add: finish_job_status)

text \<open>
  Claim C7, as the code has it. In the lifecycle of a job (the state \<open>start_job\<close>
  registers, with \<open>end_time\<close> unset; the callbacks of its worker; the terminal
  section of \<open>_run_job\<close>), no callback sets \<open>end_time\<close>, and the terminal
  section sets it together with a terminal status. So in every state of the lifecycle
  \<open>end_time\<close> set implies that the status is completed, failed or interrupted. The
  converse is not kept: a progress callback whose payload carries a status sets it,
  terminal or not, and \<open>end_time\<close> stays unset until the worker returns.
\<close>

theorem end_time_implies_terminal:
  assumes "end_time s0 = None"
  shows "(\<forall>s \<in> set (job_trace w s0 calls). end_time s = None)
       \<and> end_time (last (job_lifecycle w s0 calls finished now result)) = Some finished
       \<and> terminal (status (last (job_lifecycle w s0 calls finished now result)))
       \<and> (\<forall>s \<in> set (job_lifecycle w s0 calls finished now result).
             end_time s \<noteq> None \<longrightarrow> terminal (status s))"
proof -
  have tr: "\<forall>s \<in> set (job_trace w s0 calls). end_time s = None"
    using assms by (simp add: job_trace_end_time)
  have l: "last (job_lifecycle w s0 calls finished now result)
             = finish_job finished now result (last (job_trace w s0 calls))"
    by (simp add: job_lifecycle_def)
  have e: "end_time (last (job_lifecycle w s0 calls finished now result)) = Some finished"
    unfolding l by (rule finish_job_end_time)
  have t: "terminal (status (last (job_lifecycle w s0 calls finished now result)))"
    unfolding l terminal_def by (rule finish_job_terminal)
  have "\<forall>s \<in> set (job_lifecycle w s0 calls finished now result).
             end_time s \<noteq> None \<longrightarrow> terminal (status s)"
  proof (intro ballI impI)
    fix s
    assume m: "s \<in> set (job_lifecycle w s0 calls finished now result)" and n: "end_time s \<noteq> None"
    from m have "s \<in> set (job_trace w s0 calls) \<or>
                 s = finish_job finished now result (last (job_trace w s0 calls))"
      by (auto simp: job_lifecycle_def)
    with tr n have "s = finish_job finished now result (last (job_trace w s0 calls))" by auto
    with t l show "terminal (status s)" by simp
  qed
  with tr e t show ?thesis by blast
qed

lemma start_job_state:
  "fst (start_job clk jid q n out app fast svc) = Inr s \<Longrightarrow>
     end_time s = None \<and> status s = ''running'' \<and> result_count s = 0 \<and> job_id s = jid"
  by (auto simp: start_job_def Let_def enforce_rate_limit_locked_def split: if_splits)

text \<open>
  Claim C7, witness: the job \<open>start_job\<close> registers at time 0, one progress
  callback, a successful return at time 5.
\<close>

theorem end_time_implies_terminal_witness:
  "let clk = \<lparr>t_cleanup = 0, t_limit = 0, t_created = 0, t_update = 0, t_append = 0\<rparr>;
       s0 = (ScrapingJobState_init ''job-1'' ''coffee'' 100 ''r.csv'' False False 0)
              \<lparr>status := ''running'', last_update := Some 0\<rparr>
   in fst (start_job clk ''job-1'' ''coffee'' 100 ''r.csv'' False False JobService_default) = Inr s0
    \<and> end_time s0 = None
    \<and> map (\<lambda>s. (status s, end_time s))
         (job_lifecycle 180 s0
            [Progress 1 \<lparr>pl_progress = Some 10, pl_current = Some 10, pl_error_message = None,
                         pl_status = None, pl_timestamp = Some 1\<rparr>]
            5 5 \<lparr>success = True, run_elapsed_seconds = 5, error = None\<rparr>)
       = [(''running'', None), (''running'', None), (''completed'', Some 5)]
    \<and> terminal ''completed''"
proof -
  let ?clk = "\<lparr>t_cleanup = 0, t_limit = 0, t_created = 0, t_update = 0, t_append = 0\<rparr>"
  let ?s0 = "(ScrapingJobState_init ''job-1'' ''coffee'' 100 ''r.csv'' False False 0)
              \<lparr>status := ''running'', last_update := Some 0\<rparr>"
  have sj: "fst (start_job ?clk ''job-1'' ''coffee'' 100 ''r.csv'' False False JobService_default) = Inr ?s0"
    by (simp add: start_job_def JobService_default_def JobService_init_def ScrapingJobState_init_def
        cleanup_finished_jobs_locked_def enforce_rate_limit_locked_def current_running_jobs_locked_def
        Let_def)
  have h: "end_time ?s0 = None" by (simp add: ScrapingJobState_init_def)
  have st: "status ?s0 = ''running''" by (simp add: ScrapingJobState_init_def)
  from end_time_implies_terminal[OF h, of 180 "[Progress 1 \<lparr>pl_progress = Some 10, pl_current = Some 10, pl_error_message = None,
                       pl_status = None, pl_timestamp = Some 1\<rparr>]" 5 5 "\<lparr>success = True, run_elapsed_seconds = 5, error = None\<rparr>"]
  have m: "map (\<lambda>s. (status s, end_time s))
         (job_lifecycle 180 ?s0
            [Progress 1 \<lparr>pl_progress = Some 10, pl_current = Some 10, pl_error_message = None,
                         pl_status = None, pl_timestamp = Some 1\<rparr>]
            5 5 \<lparr>success = True, run_elapsed_seconds = 5, error = None\<rparr>)
       = [(''running'', None), (''running'', None), (''completed'', Some 5)]"
    and t: "terminal ''completed''"
    using h st
    by (simp_all add: job_lifecycle_def handle_progress_status handle_progress_end_time
        finish_job_status finish_job_end_time terminal_def)
  show ?thesis unfolding Let_def using sj h m t by (intro conjI)
qed

text \<open>
  Claim C7 as stated fails: after a submission and one progress callback that carries
  \<open>status = failed\<close>, the job is \<open>failed\<close> and its \<open>end_time\<close> is unset.
\<close>

theorem terminal_without_end_time_counterexample:
  "map (\<lambda>(jid, job). (jid, status job, end_time job))
     (jobs (run_events JobService_default
        [Submit \<lparr>t_cleanup = 0, t_limit = 0, t_created = 0, t_update = 0, t_append = 0\<rparr>
           ''job-1'' ''coffee'' 5 ''file.csv'' False False,
         Callback ''job-1''
           (Progress 1 \<lparr>pl_progress = None, pl_current = None, pl_error_message = Some ''blocked'',
                        pl_status = Some ''failed'', pl_timestamp = None\<rparr>)]))
   = [(''job-1'', ''failed'', None)]"
  by (simp add: run_events_def JobService_default_def JobService_init_def start_job_def
      cleanup_finished_jobs_locked_def enforce_rate_limit_locked_def current_running_jobs_locked_def
      setitem_def handle_callback_def handle_progress_status handle_progress_end_time Let_def)


section \<open>Properties of the worker\<close>

lemma map_of_replace:
  "map_of (map (\<lambda>p. if fst p = k then (k, v) else p) d) k' =
     (if k' = k \<and> map_of d k \<noteq> None then Some v else map_of d k')"
  by (induction d) auto

lemma map_of_setitem:
  "map_of (setitem d k v) k' = (if k' = k then Some v else map_of d k')"
  by (cases "map_of d k") (auto simp: setitem_def map_of_replace map_add_def split: option.splits)

lemma keys_setitem_present:
  "map_of d k \<noteq> None \<Longrightarrow> map fst (setitem d k v) = map fst d"
  by (induction d) (auto simp: setitem_def)

lemma handle_callback_lookup:
  assumes "map_of (jobs svc) jid = Some state"
  shows "map_of (jobs (handle_callback jid cb svc)) jid
           = Some (handle_callback_job (metrics_window_seconds svc) cb state)"
    and "map fst (jobs (handle_callback jid cb svc)) = map fst (jobs svc)"
    and "metrics_window_seconds (handle_callback jid cb svc) = metrics_window_seconds svc"
    and "cleanup_after_seconds (handle_callback jid cb svc) = cleanup_after_seconds svc"
  using assms by (simp_all add: handle_callback_def map_of_setitem keys_setitem_present)

lemma callbacks_lookup:
  assumes "map_of (jobs svc) jid = Some state"
  shows "map_of (jobs (foldl (\<lambda>s cb. handle_callback jid cb s) svc calls)) jid
           = Some (last (job_trace (metrics_window_seconds svc) state calls))
       \<and> map fst (jobs (foldl (\<lambda>s cb. handle_callback jid cb s) svc calls)) = map fst (jobs svc)
       \<and> cleanup_after_seconds (foldl (\<lambda>s cb. handle_callback jid cb s) svc calls)
           = cleanup_after_seconds svc"
  using assms
proof (induction calls arbitrary: svc state)
  case Nil
  then show ?case by simp
next
  case (Cons cb cbs)
  let ?svc = "handle_callback jid cb svc"
  let ?st = "handle_callback_job (metrics_window_seconds svc) cb state"
  note h = handle_callback_lookup[OF Cons.prems, of cb]
  from Cons.IH[OF h(1)] h(2,3,4)
  have "map_of (jobs (foldl (\<lambda>s cb. handle_callback jid cb s) ?svc cbs)) jid
           = Some (last (job_trace (metrics_window_seconds svc) ?st cbs))"
    and "map fst (jobs (foldl (\<lambda>s cb. handle_callback jid cb s) ?svc cbs)) = map fst (jobs svc)"
    and "cleanup_after_seconds (foldl (\<lambda>s cb. handle_callback jid cb s) ?svc cbs)
           = cleanup_after_seconds svc"
    by simp_all
  moreover have "last (job_trace (metrics_window_seconds svc) state (cb # cbs))
                   = last (job_trace (metrics_window_seconds svc) ?st cbs)"
    by (cases cbs) simp_all
  ultimately show ?case by simp
qed

lemma map_of_filter_distinct:
  "distinct (map fst d) \<Longrightarrow>
   map_of (filter P d) k = (case map_of d k of None \<Rightarrow> None | Some v \<Rightarrow> if P (k, v) then Some v else None)"
proof (induction d)
  case Nil
  then show ?case by simp
next
  case (Cons p d)
  obtain a b where p: "p = (a, b)" by (cases p)
  from Cons.prems p have notin: "a \<notin> fst ` set d" by simp
  then have none: "map_of d a = None" by (simp add: map_of_eq_None_iff)
  then have nonef: "map_of (filter P d) a = None"
    using notin by (auto simp: map_of_eq_None_iff)
  from Cons p none nonef show ?case by (auto split: option.splits)
qed

lemma finish_run_lookup:
  assumes "map_of (jobs svc) jid = Some state" and "distinct (map fst (jobs svc))"
  shows "map_of (jobs (finish_run jid finished now t_purge result svc)) jid
           = (if finished < t_purge - real_of_int (cleanup_after_seconds svc) then None
              else Some (finish_job finished now result state))"
proof -
  let ?d = "setitem (jobs svc) jid (finish_job finished now result state)"
  have d: "distinct (map fst ?d)" using assms by (simp add: keys_setitem_present)
  have l: "map_of ?d jid = Some (finish_job finished now result state)" by (simp add: map_of_setitem)
  show ?thesis using assms(1)
    by (simp add: finish_run_def cleanup_finished_jobs_locked_def Let_def
        map_of_filter_distinct[OF d] l finish_job_end_time)
qed

text \<open>
  Claim C5, as the code has it. The isolation is the runner's:
  \<open>InProcessScraperRunner.run\<close> never raises, it returns a result. For a job
  registered under its id and every runner behaviour that ends in a returned result,
  \<open>_run_job\<close> does not raise and runs the terminal section on the state the
  callbacks left: \<open>end_time\<close> is stamped, the status is terminal, and for a failed
  result the status is not \<open>completed\<close> and the text of the error is the job's error
  message (the job is then purged only when already older than the retention window).
  \<open>_run_job\<close> has no handler of its own: for a behaviour that ends in an exception,
  the exception leaves \<open>_run_job\<close>, the terminal section does not run, and the job
  stays registered as the callbacks left it, with \<open>end_time\<close> as before.
\<close>

theorem runner_failure_reconciled:
  assumes reg: "map_of (jobs svc) jid = Some state"
      and dist: "distinct (map fst (jobs svc))"
  shows "(\<exists>calls r. InProcessScraperRunner_run scrape_body t_start t_end config = (calls, Inr r))
       \<and> fst (run_job (calls, Inr result) finished now t_purge jid svc) = Inr ()
       \<and> map_of (jobs (snd (run_job (calls, Inr result) finished now t_purge jid svc))) jid
           = (if finished < t_purge - real_of_int (cleanup_after_seconds svc) then None
              else Some (finish_job finished now result
                           (last (job_trace (metrics_window_seconds svc) state calls))))
       \<and> end_time (finish_job finished now result
                      (last (job_trace (metrics_window_seconds svc) state calls))) = Some finished
       \<and> terminal (status (finish_job finished now result
                      (last (job_trace (metrics_window_seconds svc) state calls))))
       \<and> (\<not> success result \<longrightarrow>
            status (finish_job finished now result
                      (last (job_trace (metrics_window_seconds svc) state calls))) \<noteq> ''completed''
            \<and> (\<forall>e. error result = Some e \<longrightarrow>
                  error_message (finish_job finished now result
                      (last (job_trace (metrics_window_seconds svc) state calls))) = Some (str_exc e)))
       \<and> fst (run_job (calls, Inl exc) finished now t_purge jid svc) = Inl exc
       \<and> map_of (jobs (snd (run_job (calls, Inl exc) finished now t_purge jid svc))) jid
           = Some (last (job_trace (metrics_window_seconds svc) state calls))
       \<and> end_time (last (job_trace (metrics_window_seconds svc) state calls)) = end_time state"
proof -
  let ?w = "metrics_window_seconds svc"
  let ?svc1 = "foldl (\<lambda>s cb. handle_callback jid cb s) svc calls"
  let ?last = "last (job_trace ?w state calls)"
  note cb = callbacks_lookup[OF reg, of calls]
  have d1: "distinct (map fst (jobs ?svc1))" using cb dist by simp
  have l1: "map_of (jobs ?svc1) jid = Some ?last" using cb by simp
  have c1: "cleanup_after_seconds ?svc1 = cleanup_after_seconds svc" using cb by simp
  have a: "\<exists>calls r. InProcessScraperRunner_run scrape_body t_start t_end config = (calls, Inr r)"
    by (simp add: InProcessScraperRunner_run_def scrape_places_call_fails)
  have b: "fst (run_job (calls, Inr result) finished now t_purge jid svc) = Inr ()"
    by (simp add: run_job_def)
  have c: "map_of (jobs (snd (run_job (calls, Inr result) finished now t_purge jid svc))) jid
           = (if finished < t_purge - real_of_int (cleanup_after_seconds svc) then None
              else Some (finish_job finished now result ?last))"
    using finish_run_lookup[OF l1 d1, of finished now t_purge result] c1
    by (simp add: run_job_def)
  have d: "end_time (finish_job finished now result ?last) = Some finished"
    by (rule finish_job_end_time)
  have e: "terminal (status (finish_job finished now result ?last))"
    unfolding terminal_def by (rule finish_job_terminal)
  have f: "\<not> success result \<longrightarrow>
            status (finish_job finished now result ?last) \<noteq> ''completed''
            \<and> (\<forall>e. error result = Some e \<longrightarrow>
                  error_message (finish_job finished now result ?last) = Some (str_exc e))"
    by (simp add: finish_job_status finish_job_error_message)
  have g: "fst (run_job (calls, Inl exc) finished now t_purge jid svc) = Inl exc"
    by (simp add: run_job_def)
  have h: "map_of (jobs (snd (run_job (calls, Inl exc) finished now t_purge jid svc))) jid = Some ?last"
    using l1 by (simp add: run_job_def)
  have i: "end_time ?last = end_time state"
  proof (rule job_trace_end_time)
    have "job_trace ?w state calls \<noteq> []" by (cases calls) simp_all
    then show "?last \<in> set (job_trace ?w state calls)" by (rule last_in_set)
  qed
  from a b c d e f g h i show ?thesis by (intro conjI)
qed

text \<open>
  Claim C5, witness: the registry after \<open>start_job\<close> of \<open>job-1\<close> at time 0, and
  a runner that returns a failure carrying an exception.
\<close>

theorem runner_failure_reconciled_witness:
  "let clk = \<lparr>t_cleanup = 0, t_limit = 0, t_created = 0, t_update = 0, t_append = 0\<rparr>;
       st0 = (ScrapingJobState_init ''job-1'' ''coffee'' 5 ''file.csv'' False False 0)
               \<lparr>status := ''running'', last_update := Some 0\<rparr>;
       svc0 = snd (start_job clk ''job-1'' ''coffee'' 5 ''file.csv'' False False JobService_default);
       failure = \<lparr>success = False, run_elapsed_seconds = 5, error = Some (OtherException ''boom'')\<rparr>
   in map_of (jobs svc0) ''job-1'' = Some st0
    \<and> distinct (map fst (jobs svc0))
    \<and> fst (run_job ([], Inr failure) 5 5 6 ''job-1'' svc0) = Inr ()
    \<and> map (\<lambda>(jid, job). (jid, status job, end_time job, error_message job))
         (jobs (snd (run_job ([], Inr failure) 5 5 6 ''job-1'' svc0)))
        = [(''job-1'', ''failed'', Some 5, Some ''boom'')]"
proof -
  let ?clk = "\<lparr>t_cleanup = 0, t_limit = 0, t_created = 0, t_update = 0, t_append = 0\<rparr>"
  let ?st0 = "(ScrapingJobState_init ''job-1'' ''coffee'' 5 ''file.csv'' False False 0)
               \<lparr>status := ''running'', last_update := Some 0\<rparr>"
  define svc0 where "svc0 = snd (start_job ?clk ''job-1'' ''coffee'' 5 ''file.csv'' False False JobService_default)"
  let ?failure = "\<lparr>success = False, run_elapsed_seconds = 5, error = Some (OtherException ''boom'')\<rparr>"
  have js: "jobs svc0 = [(''job-1'', ?st0)]"
    by (simp add: svc0_def start_job_def JobService_default_def JobService_init_def
        ScrapingJobState_init_def cleanup_finished_jobs_locked_def enforce_rate_limit_locked_def
        current_running_jobs_locked_def setitem_def Let_def)
  have ca: "cleanup_after_seconds svc0 = 900"
    by (simp add: svc0_def start_job_def JobService_default_def JobService_init_def
        cleanup_finished_jobs_locked_def enforce_rate_limit_locked_def
        current_running_jobs_locked_def Let_def)
  have reg: "map_of (jobs svc0) ''job-1'' = Some ?st0" by (simp add: js)
  have dist: "distinct (map fst (jobs svc0))" by (simp add: js)
  have st: "status ?st0 = ''running''" by simp
  from runner_failure_reconciled[OF reg dist, of _ _ _ _ "[]" ?failure 5 5 6]
  have r: "fst (run_job ([], Inr ?failure) 5 5 6 ''job-1'' svc0) = Inr ()"
    and l: "map_of (jobs (snd (run_job ([], Inr ?failure) 5 5 6 ''job-1'' svc0))) ''job-1''
          = Some (finish_job 5 5 ?failure ?st0)"
    by (simp_all add: ca)
  have j: "jobs (snd (run_job ([], Inr ?failure) 5 5 6 ''job-1'' svc0))
             = [(''job-1'', finish_job 5 5 ?failure ?st0)]"
    by (simp add: run_job_def finish_run_def setitem_def cleanup_finished_jobs_locked_def
        finish_job_end_time ca js)
  have m: "map (\<lambda>(jid, job). (jid, status job, end_time job, error_message job))
         (jobs (snd (run_job ([], Inr ?failure) 5 5 6 ''job-1'' svc0)))
        = [(''job-1'', ''failed'', Some 5, Some ''boom'')]"
    by (simp add: j finish_job_status finish_job_end_time finish_job_error_message st)
  show ?thesis
    unfolding Let_def svc0_def[symmetric] using reg dist r m by (intro conjI)
qed

text \<open>
  Claim C5 as stated fails for a runner whose \<open>run\<close> raises: the exception leaves
  \<open>_run_job\<close>, and the job stays \<open>running\<close> with no \<open>end_time\<close> and no error
  message.
\<close>

theorem raising_runner_not_reconciled_counterexample:
  "fst (run_job ([], Inl (OtherException ''boom'')) 5 5 6 ''job-1''
          (run_events JobService_default
             [Submit \<lparr>t_cleanup = 0, t_limit = 0, t_created = 0, t_update = 0, t_append = 0\<rparr>
                ''job-1'' ''coffee'' 5 ''file.csv'' False False]))
     = Inl (OtherException ''boom'')
   \<and> map (\<lambda>(jid, job). (jid, status job, end_time job, error_message job))
       (jobs (snd (run_job ([], Inl (OtherException ''boom'')) 5 5 6 ''job-1''
          (run_events JobService_default
             [Submit \<lparr>t_cleanup = 0, t_limit = 0, t_created = 0, t_update = 0, t_append = 0\<rparr>
                ''job-1'' ''coffee'' 5 ''file.csv'' False False]))))
     = [(''job-1'', ''running'', None, None)]"
  by (simp add: run_job_def run_events_def JobService_default_def JobService_init_def start_job_def
      cleanup_finished_jobs_locked_def enforce_rate_limit_locked_def current_running_jobs_locked_def
      setitem_def Let_def)


section \<open>Properties of admission control\<close>

lemma dropWhile_expired_sorted:
  fixes now w :: real
  assumes "sorted xs"
  shows "dropWhile (\<lambda>t. now - t > w) xs = filter (\<lambda>t. now - t \<le> w) xs"
  using assms
proof (induction xs)
  case Nil
  then show ?case by simp
next
  case (Cons x xs)
  show ?case
  proof (cases "now - x > w")
    case True
    with Cons show ?thesis by simp
  next
    case False
    from Cons.prems have "\<forall>t \<in> set xs. x \<le> t" by simp
    with False have "\<forall>t \<in> set xs. now - t \<le> w" by fastforce
    then have "filter (\<lambda>t. now - t \<le> w) xs = xs" by (simp add: filter_id_conv)
    with False show ?thesis by simp
  qed
qed

lemma cleanup_keeps:
  "job_starts (cleanup_finished_jobs_locked t svc) = job_starts svc"
  "rate_limit (cleanup_finished_jobs_locked t svc) = rate_limit svc"
  "rate_limit_window (cleanup_finished_jobs_locked t svc) = rate_limit_window svc"
  "max_concurrent_jobs (cleanup_finished_jobs_locked t svc) = max_concurrent_jobs svc"
  "cleanup_after_seconds (cleanup_finished_jobs_locked t svc) = cleanup_after_seconds svc"
  "metrics_window_seconds (cleanup_finished_jobs_locked t svc) = metrics_window_seconds svc"
  by (simp_all add: cleanup_finished_jobs_locked_def Let_def)

lemma running_ignores_starts:
  "current_running_jobs_locked (svc\<lparr>job_starts := js\<rparr>) = current_running_jobs_locked svc"
  by (simp add: current_running_jobs_locked_def)

lemma start_job_outcome:
  "(\<exists>m. fst (start_job clk jid q n out app fast svc) = Inl (RateLimitExceeded m)) \<longleftrightarrow> \<not> admits clk svc"
  "(\<exists>s. fst (start_job clk jid q n out app fast svc) = Inr s) \<longleftrightarrow> admits clk svc"
  by (auto simp: start_job_def admits_def kept_starts_def enforce_rate_limit_locked_def Let_def
      cleanup_keeps running_ignores_starts split: if_splits)

lemma start_job_queue:
  "job_starts (snd (start_job clk jid q n out app fast svc)) =
     kept_starts (t_limit clk) svc @ (if admits clk svc then [t_append clk] else [])"
  by (auto simp: start_job_def admits_def kept_starts_def enforce_rate_limit_locked_def Let_def
      cleanup_keeps running_ignores_starts split: if_splits)

lemma start_job_config:
  "rate_limit (snd (start_job clk jid q n out app fast svc)) = rate_limit svc"
  "rate_limit_window (snd (start_job clk jid q n out app fast svc)) = rate_limit_window svc"
  "max_concurrent_jobs (snd (start_job clk jid q n out app fast svc)) = max_concurrent_jobs svc"
  by (auto simp: start_job_def enforce_rate_limit_locked_def Let_def cleanup_keeps split: if_splits)

lemma handle_callback_keeps:
  "job_starts (handle_callback jid cb svc) = job_starts svc"
  "rate_limit (handle_callback jid cb svc) = rate_limit svc"
  "rate_limit_window (handle_callback jid cb svc) = rate_limit_window svc"
  "max_concurrent_jobs (handle_callback jid cb svc) = max_concurrent_jobs svc"
  by (simp_all add: handle_callback_def split: option.splits)

lemma finish_run_keeps:
  "job_starts (finish_run jid f now tp r svc) = job_starts svc"
  "rate_limit (finish_run jid f now tp r svc) = rate_limit svc"
  "rate_limit_window (finish_run jid f now tp r svc) = rate_limit_window svc"
  "max_concurrent_jobs (finish_run jid f now tp r svc) = max_concurrent_jobs svc"
  by (simp_all add: finish_run_def cleanup_keeps split: option.splits)

lemma apply_event_config:
  "rate_limit (apply_event svc ev) = rate_limit svc"
  "rate_limit_window (apply_event svc ev) = rate_limit_window svc"
  "max_concurrent_jobs (apply_event svc ev) = max_concurrent_jobs svc"
  by (cases ev; simp add: start_job_config handle_callback_keeps finish_run_keeps)+

lemma admitted_at_submit:
  "admitted_at svc (Submit clk jid q n out app fast) = (if admits clk svc then [t_append clk] else [])"
proof (cases "admits clk svc")
  case True
  with start_job_outcome(2)[of clk jid q n out app fast svc] show ?thesis by auto
next
  case False
  with start_job_outcome(1)[of clk jid q n out app fast svc] show ?thesis by auto
qed

lemma dropWhile_split:
  "\<exists>D. xs = D @ dropWhile P xs \<and> (\<forall>x \<in> set D. P x)"
proof
  show "xs = takeWhile P xs @ dropWhile P xs \<and> (\<forall>x \<in> set (takeWhile P xs). P x)"
    by (auto dest: set_takeWhileD)
qed

lemma queue_inv_submit:
  assumes inv: "queue_inv svc H lo" and t1: "lo \<le> t_limit clk" and t2: "t_limit clk \<le> t_append clk"
  shows "queue_inv (snd (start_job clk jid q n out app fast svc))
           (H @ admitted_at svc (Submit clk jid q n out app fast)) (t_append clk)"
proof -
  let ?w = "real_of_int (rate_limit_window svc)"
  from inv obtain P where s: "sorted H" and b: "\<forall>x \<in> set H. x \<le> lo"
    and H: "H = P @ job_starts svc" and P: "\<forall>x \<in> set P. lo - x > ?w"
    by (auto simp: queue_inv_def)
  obtain D where D: "job_starts svc = D @ kept_starts (t_limit clk) svc"
    and Dx: "\<forall>x \<in> set D. t_limit clk - x > ?w"
    using dropWhile_split[of "job_starts svc" "\<lambda>t. t_limit clk - t > ?w"]
    by (auto simp: kept_starts_def)
  let ?K = "kept_starts (t_limit clk) svc"
  let ?new = "(if admits clk svc then [t_append clk] else [])"
  have H': "H @ ?new = (P @ D) @ (?K @ ?new)" using H D by simp
  have old: "\<forall>x \<in> set (P @ D). t_append clk - x > ?w"
    using P Dx t1 t2 by fastforce
  have le: "\<forall>x \<in> set H. x \<le> t_append clk" using b t1 t2 by fastforce
  have srt: "sorted (H @ ?new)" using s le by (simp add: sorted_append)
  have bnd: "\<forall>x \<in> set (H @ ?new). x \<le> t_append clk" using le by auto
  show ?thesis
    unfolding queue_inv_def admitted_at_submit start_job_queue start_job_config
    using srt bnd H' old by blast
qed

lemma queue_inv_other:
  assumes "queue_inv svc H lo"
  shows "queue_inv (handle_callback jid cb svc) H lo"
    and "queue_inv (finish_run jid f now tp r svc) H lo"
  using assms by (simp_all add: queue_inv_def handle_callback_keeps finish_run_keeps)

lemma queue_inv_run:
  assumes "queue_inv svc H lo" and "sorted (lo # submit_times evs)"
  shows "queue_inv (run_events svc evs) (H @ admitted_starts svc evs) (last (lo # submit_times evs))"
  using assms
proof (induction evs arbitrary: svc H lo)
  case Nil
  then show ?case by (simp add: run_events_def)
next
  case (Cons ev evs)
  show ?case
  proof (cases ev)
    case (Submit clk jid q n out app fast)
    from Cons.prems(2) Submit have t: "lo \<le> t_limit clk" "t_limit clk \<le> t_append clk"
      and rest: "sorted (t_append clk # submit_times evs)" by auto
    from queue_inv_submit[OF Cons.prems(1) t]
    have "queue_inv (apply_event svc ev) (H @ admitted_at svc ev) (t_append clk)"
      using Submit by simp
    from Cons.IH[OF this rest] Submit show ?thesis by (simp add: run_events_def)
  next
    case (Callback jid cb)
    from queue_inv_other(1)[OF Cons.prems(1)] have "queue_inv (apply_event svc ev) H lo"
      using Callback by simp
    from Cons.IH[OF this] Cons.prems(2) Callback show ?thesis by (simp add: run_events_def)
  next
    case (Finish jid f now tp r)
    from queue_inv_other(2)[OF Cons.prems(1)] have "queue_inv (apply_event svc ev) H lo"
      using Finish by simp
    from Cons.IH[OF this] Cons.prems(2) Finish show ?thesis by (simp add: run_events_def)
  qed
qed

lemma run_events_config:
  "rate_limit (run_events svc evs) = rate_limit svc \<and>
   rate_limit_window (run_events svc evs) = rate_limit_window svc \<and>
   max_concurrent_jobs (run_events svc evs) = max_concurrent_jobs svc"
  unfolding run_events_def
  by (induction evs arbitrary: svc) (simp_all add: apply_event_config)

lemma kept_is_recent:
  assumes inv: "queue_inv svc H lo" and t: "lo \<le> now"
  shows "kept_starts now svc = filter (\<lambda>t. now - t \<le> real_of_int (rate_limit_window svc)) H"
proof -
  let ?w = "real_of_int (rate_limit_window svc)"
  from inv obtain P where s: "sorted H"
    and H: "H = P @ job_starts svc" and P: "\<forall>x \<in> set P. lo - x > ?w"
    by (auto simp: queue_inv_def)
  from s H have sj: "sorted (job_starts svc)" by (simp add: sorted_append)
  have "\<forall>x \<in> set P. \<not> now - x \<le> ?w" using P t by fastforce
  then have "filter (\<lambda>t. now - t \<le> ?w) P = []" by (simp add: filter_empty_conv)
  then have "filter (\<lambda>t. now - t \<le> ?w) H = filter (\<lambda>t. now - t \<le> ?w) (job_starts svc)"
    by (subst H) simp
  with dropWhile_expired_sorted[OF sj, where now = now and w = ?w] show ?thesis
    by (simp add: kept_starts_def)
qed

lemma run_events_retention:
  "cleanup_after_seconds (run_events svc evs) = cleanup_after_seconds svc"
  unfolding run_events_def
proof (induction evs arbitrary: svc)
  case Nil
  then show ?case by simp
next
  case (Cons ev evs)
  have "cleanup_after_seconds (apply_event svc ev) = cleanup_after_seconds svc"
    by (cases ev)
       (auto simp: start_job_def enforce_rate_limit_locked_def Let_def cleanup_keeps
          handle_callback_def finish_run_def split: if_splits option.splits)
  with Cons.IH[of "apply_event svc ev"] show ?case by simp
qed

lemma running_after_purge:
  "current_running_jobs_locked (cleanup_finished_jobs_locked t svc) =
     int (length (filter (\<lambda>(jid, job). status job = ''running'' \<and>
                            (case end_time job of
                               None \<Rightarrow> True
                             | Some e \<Rightarrow> t - real_of_int (cleanup_after_seconds svc) \<le> e))
                    (jobs svc)))"
proof -
  have "filter (\<lambda>(jid, job). status job = ''running'')
          (filter (\<lambda>(jid, job). \<not> (end_time job \<noteq> None \<and>
                       the (end_time job) < t - real_of_int (cleanup_after_seconds svc))) js)
        = filter (\<lambda>(jid, job). status job = ''running'' \<and>
                            (case end_time job of
                               None \<Rightarrow> True
                             | Some e \<Rightarrow> t - real_of_int (cleanup_after_seconds svc) \<le> e)) js"
    for js :: "(string \<times> ScrapingJobState) list"
    by (induction js) (auto split: option.splits)
  then show ?thesis
    by (simp add: current_running_jobs_locked_def cleanup_finished_jobs_locked_def Let_def)
qed

text \<open>
  Claim C1, as the code has it. Take a registry with any limits, any sequence of events
  on it (calls of \<open>start_job\<close>, admitted or not, callbacks and completions of
  workers, in any interleaving), and a further call of \<open>start_job\<close>, where the
  readings of the clock that the rate limiter takes never decrease from one to the next.
  Let \<open>recent\<close> be the admitted submissions whose timestamps lie within the trailing
  window of the call, and \<open>running\<close> the number of registered jobs whose status is
  \<open>running\<close> and which the retention purge at the start of the call leaves in the
  registry. Then the call raises RateLimitExceeded if and only if \<open>recent\<close> has
  reached the rate limit or \<open>running\<close> has reached the concurrency cap, and it
  returns a job otherwise; and the queue it leaves is \<open>recent\<close>, the expired
  timestamps dropped, with the timestamp of the call added when it is admitted. So once
  N = limit submissions lie in the window the next call fails, and once they have left
  the window a call succeeds again, when fewer jobs run than the cap.
\<close>

theorem start_job_admission:
  assumes clock: "sorted (submit_times evs @ [t_limit clk])"
  shows "let svc = run_events (JobService_init rl window cleanup mw cap) evs;
             recent = filter (\<lambda>t. t_limit clk - t \<le> real_of_int window)
                        (admitted_starts (JobService_init rl window cleanup mw cap) evs);
             running = int (length (filter
                         (\<lambda>(jid, job). status job = ''running'' \<and>
                            (case end_time job of
                               None \<Rightarrow> True
                             | Some e \<Rightarrow> t_cleanup clk - real_of_int cleanup \<le> e))
                         (jobs svc)));
             call = start_job clk jid q n out app fast svc
         in ((\<exists>m. fst call = Inl (RateLimitExceeded m)) \<longleftrightarrow>
               rl \<le> int (length recent) \<or> cap \<le> running)
          \<and> ((\<exists>s. fst call = Inr s) \<longleftrightarrow>
               int (length recent) < rl \<and> running < cap)
          \<and> job_starts (snd call) =
               recent @ (if int (length recent) < rl \<and> running < cap then [t_append clk] else [])"
proof -
  let ?init = "JobService_init rl window cleanup mw cap"
  let ?svc = "run_events ?init evs"
  let ?H = "admitted_starts ?init evs"
  let ?lo0 = "hd (submit_times evs @ [t_limit clk])"
  have cfg0: "rate_limit ?init = rl" "rate_limit_window ?init = window" "max_concurrent_jobs ?init = cap"
    "job_starts ?init = []" "cleanup_after_seconds ?init = cleanup"
    by (simp_all add: JobService_init_def)
  have cfg: "rate_limit ?svc = rl" "rate_limit_window ?svc = window" "max_concurrent_jobs ?svc = cap"
    using run_events_config[of ?init evs] cfg0 by simp_all
  have ret: "cleanup_after_seconds ?svc = cleanup"
    using run_events_retention[of ?init evs] cfg0 by simp
  have inv0: "queue_inv ?init [] ?lo0" by (simp add: queue_inv_def cfg0)
  have s0: "sorted (?lo0 # submit_times evs)"
  proof (cases "submit_times evs")
    case Nil
    then show ?thesis by simp
  next
    case (Cons a as)
    with clock show ?thesis by (simp add: sorted_append)
  qed
  have le: "last (?lo0 # submit_times evs) \<le> t_limit clk"
  proof (cases "submit_times evs")
    case Nil
    then show ?thesis by simp
  next
    case (Cons a as)
    then have "last (?lo0 # submit_times evs) \<in> set (submit_times evs)"
      by (metis last_ConsR last_in_set list.distinct(1))
    with clock show ?thesis by (simp add: sorted_append)
  qed
  from queue_inv_run[OF inv0 s0]
  have inv: "queue_inv ?svc ?H (last (?lo0 # submit_times evs))" by simp
  have kept: "kept_starts (t_limit clk) ?svc =
                filter (\<lambda>t. t_limit clk - t \<le> real_of_int window) ?H"
    using kept_is_recent[OF inv le] by (simp add: cfg)
  have run: "current_running_jobs_locked (cleanup_finished_jobs_locked (t_cleanup clk) ?svc) =
     int (length (filter (\<lambda>(jid, job). status job = ''running'' \<and>
                            (case end_time job of
                               None \<Rightarrow> True
                             | Some e \<Rightarrow> t_cleanup clk - real_of_int cleanup \<le> e))
                    (jobs ?svc)))"
    using running_after_purge[of "t_cleanup clk" ?svc] by (simp only: ret)
  have adm: "admits clk ?svc \<longleftrightarrow>
               int (length (filter (\<lambda>t. t_limit clk - t \<le> real_of_int window) ?H)) < rl \<and>
               int (length (filter (\<lambda>(jid, job). status job = ''running'' \<and>
                            (case end_time job of
                               None \<Rightarrow> True
                             | Some e \<Rightarrow> t_cleanup clk - real_of_int cleanup \<le> e))
                    (jobs ?svc))) < cap"
    unfolding admits_def kept cfg run by auto
  show ?thesis
    unfolding Let_def start_job_outcome start_job_queue kept adm by auto
qed

lemma running_count_fields:
  "length (filter (\<lambda>(jid, job). status job = ''running'' \<and>
                      (case end_time job of None \<Rightarrow> True | Some e \<Rightarrow> c \<le> e)) js)
   = length (filter (\<lambda>(jid, st, e). st = ''running'' \<and>
                      (case e of None \<Rightarrow> True | Some e \<Rightarrow> c \<le> e))
              (map (\<lambda>(jid, job). (jid, status job, end_time job)) js))"
  by (induction js) auto

text \<open>
  Claim C1, witness: the default limits (2 per 60 seconds, 2 concurrent jobs). With two
  jobs submitted at times 0 and 10 that both complete, a call at time 30 is refused by
  the rate limit, and a call at time 65, the first timestamp expired, is admitted. With
  the same two jobs still running, a call at time 100 is refused by the concurrency cap
  although no timestamp is left in the window; once the first job has completed, a call
  at time 102 is admitted.
\<close>

theorem start_job_admission_witness:
  "let init = JobService_init 2 60 900 180 2;
       ok = \<lparr>success = True, run_elapsed_seconds = 5, error = None\<rparr>;
       clock_at = (\<lambda>t. \<lparr>t_cleanup = t, t_limit = t, t_created = t, t_update = t, t_append = t\<rparr>);
       finished = [Submit (clock_at 0) ''job-1'' ''coffee'' 5 ''a.csv'' False False,
               Finish ''job-1'' 5 5 5 ok,
               Submit (clock_at 10) ''job-2'' ''coffee'' 5 ''b.csv'' False False,
               Finish ''job-2'' 15 15 15 ok];
       busy = [Submit (clock_at 0) ''job-1'' ''coffee'' 5 ''a.csv'' False False,
               Submit (clock_at 10) ''job-2'' ''coffee'' 5 ''b.csv'' False False];
       freed = busy @ [Finish ''job-1'' 101 101 101 ok]
   in sorted (submit_times finished @ [t_limit (clock_at 30)])
    \<and> sorted (submit_times finished @ [t_limit (clock_at 65)])
    \<and> sorted (submit_times busy @ [t_limit (clock_at 100)])
    \<and> sorted (submit_times freed @ [t_limit (clock_at 102)])
    \<and> admitted_starts init finished = [0, 10]
    \<and> map (\<lambda>(jid, job). (jid, status job, end_time job)) (jobs (run_events init finished))
         = [(''job-1'', ''completed'', Some 5), (''job-2'', ''completed'', Some 15)]
    \<and> (\<exists>m. fst (start_job (clock_at 30) ''job-3'' ''coffee'' 5 ''c.csv'' False False
                    (run_events init finished)) = Inl (RateLimitExceeded m))
    \<and> (\<exists>s. fst (start_job (clock_at 65) ''job-3'' ''coffee'' 5 ''c.csv'' False False
                    (run_events init finished)) = Inr s)
    \<and> job_starts (snd (start_job (clock_at 65) ''job-3'' ''coffee'' 5 ''c.csv'' False False
                    (run_events init finished))) = [10, 65]
    \<and> admitted_starts init busy = [0, 10]
    \<and> map (\<lambda>(jid, job). (jid, status job, end_time job)) (jobs (run_events init busy))
         = [(''job-1'', ''running'', None), (''job-2'', ''running'', None)]
    \<and> (\<exists>m. fst (start_job (clock_at 100) ''job-3'' ''coffee'' 5 ''c.csv'' False False
                    (run_events init busy)) = Inl (RateLimitExceeded m))
    \<and> job_starts (snd (start_job (clock_at 100) ''job-3'' ''coffee'' 5 ''c.csv'' False False
                    (run_events init busy))) = []
    \<and> map (\<lambda>(jid, job). (jid, status job, end_time job)) (jobs (run_events init freed))
         = [(''job-1'', ''completed'', Some 101), (''job-2'', ''running'', None)]
    \<and> (\<exists>s. fst (start_job (clock_at 102) ''job-3'' ''coffee'' 5 ''c.csv'' False False
                    (run_events init freed)) = Inr s)"
proof -
  define init where "init = JobService_init 2 60 900 180 2"
  define ok where "ok = \<lparr>success = True, run_elapsed_seconds = 5, error = None\<rparr>"
  define clock_at where
    "clock_at = (\<lambda>t::real. \<lparr>t_cleanup = t, t_limit = t, t_created = t, t_update = t, t_append = t\<rparr>)"
  define finished where "finished = [Submit (clock_at 0) ''job-1'' ''coffee'' 5 ''a.csv'' False False,
               Finish ''job-1'' 5 5 5 ok,
               Submit (clock_at 10) ''job-2'' ''coffee'' 5 ''b.csv'' False False,
               Finish ''job-2'' 15 15 15 ok]"
  define busy where "busy = [Submit (clock_at 0) ''job-1'' ''coffee'' 5 ''a.csv'' False False,
               Submit (clock_at 10) ''job-2'' ''coffee'' 5 ''b.csv'' False False]"
  define freed where "freed = busy @ [Finish ''job-1'' 101 101 101 ok]"
  note evals = run_events_def clock_at_def ok_def init_def JobService_init_def start_job_def
        cleanup_finished_jobs_locked_def enforce_rate_limit_locked_def current_running_jobs_locked_def
        finish_run_def finish_job_def update_metrics_locked_def setitem_def Let_def
  have clk: "t_limit (clock_at t) = t" "t_append (clock_at t) = t" "t_cleanup (clock_at t) = t" for t
    by (simp_all add: clock_at_def)
  have c30: "sorted (submit_times finished @ [t_limit (clock_at 30)])"
    and c65: "sorted (submit_times finished @ [t_limit (clock_at 65)])"
    by (simp_all add: finished_def clk)
  have c100: "sorted (submit_times busy @ [t_limit (clock_at 100)])"
    by (simp add: busy_def clk)
  have c102: "sorted (submit_times freed @ [t_limit (clock_at 102)])"
    by (simp add: freed_def busy_def clk)
  have Hd: "admitted_starts init finished = [0, 10]"
    and Jd: "map (\<lambda>(jid, job). (jid, status job, end_time job)) (jobs (run_events init finished))
         = [(''job-1'', ''completed'', Some 5), (''job-2'', ''completed'', Some 15)]"
    by (simp_all add: finished_def evals)
  have Hb: "admitted_starts init busy = [0, 10]"
    and Jb: "map (\<lambda>(jid, job). (jid, status job, end_time job)) (jobs (run_events init busy))
         = [(''job-1'', ''running'', None), (''job-2'', ''running'', None)]"
    by (simp_all add: busy_def evals)
  have Hf: "admitted_starts init freed = [0, 10]"
    and Jf: "map (\<lambda>(jid, job). (jid, status job, end_time job)) (jobs (run_events init freed))
         = [(''job-1'', ''completed'', Some 101), (''job-2'', ''running'', None)]"
    by (simp_all add: freed_def busy_def evals)
  from start_job_admission[OF c30, of 2 60 900 180 2 "''job-3''" "''coffee''" 5 "''c.csv''" False False]
  have r30: "\<exists>m. fst (start_job (clock_at 30) ''job-3'' ''coffee'' 5 ''c.csv'' False False
                    (run_events init finished)) = Inl (RateLimitExceeded m)"
    unfolding Let_def init_def[symmetric] Hd running_count_fields Jd by (simp add: clk)
  from start_job_admission[OF c65, of 2 60 900 180 2 "''job-3''" "''coffee''" 5 "''c.csv''" False False]
  have r65: "\<exists>s. fst (start_job (clock_at 65) ''job-3'' ''coffee'' 5 ''c.csv'' False False
                    (run_events init finished)) = Inr s"
    and q65: "job_starts (snd (start_job (clock_at 65) ''job-3'' ''coffee'' 5 ''c.csv'' False False
                    (run_events init finished))) = [10, 65]"
    unfolding Let_def init_def[symmetric] Hd running_count_fields Jd by (simp_all add: clk)
  from start_job_admission[OF c100, of 2 60 900 180 2 "''job-3''" "''coffee''" 5 "''c.csv''" False False]
  have r100: "\<exists>m. fst (start_job (clock_at 100) ''job-3'' ''coffee'' 5 ''c.csv'' False False
                    (run_events init busy)) = Inl (RateLimitExceeded m)"
    and q100: "job_starts (snd (start_job (clock_at 100) ''job-3'' ''coffee'' 5 ''c.csv'' False False
                    (run_events init busy))) = []"
    unfolding Let_def init_def[symmetric] Hb running_count_fields Jb by (simp_all add: clk)
  from start_job_admission[OF c102, of 2 60 900 180 2 "''job-3''" "''coffee''" 5 "''c.csv''" False False]
  have r102: "\<exists>s. fst (start_job (clock_at 102) ''job-3'' ''coffee'' 5 ''c.csv'' False False
                    (run_events init freed)) = Inr s"
    unfolding Let_def init_def[symmetric] Hf running_count_fields Jf by (simp add: clk)
  show ?thesis
    unfolding Let_def init_def[symmetric] ok_def[symmetric] clock_at_def[symmetric]
      finished_def[symmetric] busy_def[symmetric] freed_def[symmetric]
    using c30 c65 c100 c102 Hd Jd r30 r65 q65 Hb Jb r100 q100 Jf r102 by (intro conjI)
qed

text \<open>
  Claim C1 as stated fails when the clock is set back: with submissions stamped 100 and
  then 55, both jobs completed, a call at time 116 finds one submission inside the
  window of 60 seconds, under the limit of 2, and no running job, and is refused all the
  same. The loop drops expired timestamps from the front of the queue only, and the
  front, 100, has not expired.
\<close>

theorem clock_set_back_counterexample:
  "let init = JobService_init 2 60 900 180 2;
       ok = \<lparr>success = True, run_elapsed_seconds = 1, error = None\<rparr>;
       clock_at = (\<lambda>t. \<lparr>t_cleanup = t, t_limit = t, t_created = t, t_update = t, t_append = t\<rparr>);
       evs = [Submit (clock_at 100) ''job-1'' ''coffee'' 5 ''a.csv'' False False,
              Finish ''job-1'' 101 101 101 ok,
              Submit (clock_at 55) ''job-2'' ''coffee'' 5 ''b.csv'' False False,
              Finish ''job-2'' 56 56 56 ok];
       svc = run_events init evs
   in admitted_starts init evs = [100, 55]
    \<and> filter (\<lambda>t. t_limit (clock_at 116) - t \<le> real_of_int 60) (admitted_starts init evs) = [100]
    \<and> map (\<lambda>(jid, job). (jid, status job, end_time job)) (jobs svc)
         = [(''job-1'', ''completed'', Some 101), (''job-2'', ''completed'', Some 56)]
    \<and> fst (start_job (clock_at 116) ''job-3'' ''coffee'' 5 ''c.csv'' False False svc)
         = Inl (RateLimitExceeded ''Too many scraping jobs started recently'')"
proof -
  define init where "init = JobService_init 2 60 900 180 2"
  define ok where "ok = \<lparr>success = True, run_elapsed_seconds = 1, error = None\<rparr>"
  define clock_at where
    "clock_at = (\<lambda>t::real. \<lparr>t_cleanup = t, t_limit = t, t_created = t, t_update = t, t_append = t\<rparr>)"
  define evs where "evs = [Submit (clock_at 100) ''job-1'' ''coffee'' 5 ''a.csv'' False False,
              Finish ''job-1'' 101 101 101 ok,
              Submit (clock_at 55) ''job-2'' ''coffee'' 5 ''b.csv'' False False,
              Finish ''job-2'' 56 56 56 ok]"
  define svc where "svc = run_events init evs"
  note evals = run_events_def clock_at_def ok_def init_def JobService_init_def start_job_def
        cleanup_finished_jobs_locked_def enforce_rate_limit_locked_def current_running_jobs_locked_def
        finish_run_def finish_job_def update_metrics_locked_def setitem_def Let_def
  have H: "admitted_starts init evs = [100, 55]"
    by (simp add: evs_def evals)
  have J: "map (\<lambda>(jid, job). (jid, status job, end_time job)) (jobs svc)
         = [(''job-1'', ''completed'', Some 101), (''job-2'', ''completed'', Some 56)]"
    by (simp add: svc_def evs_def evals)
  have Q: "job_starts svc = [100, 55]"
    by (simp add: svc_def evs_def evals)
  have C: "rate_limit svc = 2" "rate_limit_window svc = 60"
    using run_events_config[of init evs] by (simp_all add: svc_def init_def JobService_init_def)
  have F: "filter (\<lambda>t. t_limit (clock_at 116) - t \<le> real_of_int 60) (admitted_starts init evs) = [100]"
    by (simp add: H clock_at_def)
  have R: "fst (start_job (clock_at 116) ''job-3'' ''coffee'' 5 ''c.csv'' False False svc)
         = Inl (RateLimitExceeded ''Too many scraping jobs started recently'')"
    by (simp add: start_job_def enforce_rate_limit_locked_def cleanup_keeps Let_def Q C clock_at_def)
  show ?thesis
    unfolding Let_def init_def[symmetric] ok_def[symmetric] clock_at_def[symmetric]
      evs_def[symmetric] svc_def[symmetric]
    using H F J R by (intro conjI)
qed


section \<open>Properties of checkpoints\<close>

lemma save_then_load:
  "path_exists fs out \<Longrightarrow>
   fst (load_cache md5 fs (snd (save_cache md5 ts dir q out n_total n_scraped last_index)) q out)
     = Some \<lparr>sc_search_query = q, sc_output_file = out, sc_total_target = n_total,
              scraped_count = n_scraped, last_scraped_index = last_index, sc_timestamp = ts,
              cache_id = generate_cache_id md5 q out\<rparr>"
  by (simp add: load_cache_def save_cache_def Let_def)

text \<open>
  Claim C10. The fingerprint is a function of the pair, so computing it twice gives the
  same value, and a checkpoint saved for a pair is found again for that pair (lemma
  \<open>save_then_load\<close>). It does not tell distinct pairs apart: it digests the query
  and the output target joined by an underscore, so the query \<open>coffee_shops\<close> with
  target \<open>a.csv\<close> and the query \<open>coffee\<close> with target \<open>shops_a.csv\<close> get
  the same fingerprint whatever the digest function is, and loading the checkpoint of
  the second pair returns the record saved for the first.
\<close>

theorem cache_id_collision:
  "(''coffee_shops'', ''a.csv'') \<noteq> (''coffee'', ''shops_a.csv'')
   \<and> generate_cache_id md5 ''coffee_shops'' ''a.csv'' = generate_cache_id md5 ''coffee'' ''shops_a.csv''
   \<and> fst (load_cache md5 fs
            (snd (save_cache md5 ts dir ''coffee_shops'' ''a.csv'' 100 25 24))
            ''coffee'' ''shops_a.csv'')
       = (if path_exists fs ''a.csv''
          then Some \<lparr>sc_search_query = ''coffee_shops'', sc_output_file = ''a.csv'',
                     sc_total_target = 100, scraped_count = 25, last_scraped_index = 24,
                     sc_timestamp = ts,
                     cache_id = generate_cache_id md5 ''coffee_shops'' ''a.csv''\<rparr>
          else None)"
proof -
  have id: "generate_cache_id md5 ''coffee_shops'' ''a.csv'' = generate_cache_id md5 ''coffee'' ''shops_a.csv''"
    by (simp add: generate_cache_id_def)
  have ld: "fst (load_cache md5 fs
            (snd (save_cache md5 ts dir ''coffee_shops'' ''a.csv'' 100 25 24))
            ''coffee'' ''shops_a.csv'')
       = (if path_exists fs ''a.csv''
          then Some \<lparr>sc_search_query = ''coffee_shops'', sc_output_file = ''a.csv'',
                     sc_total_target = 100, scraped_count = 25, last_scraped_index = 24,
                     sc_timestamp = ts,
                     cache_id = generate_cache_id md5 ''coffee_shops'' ''a.csv''\<rparr>
          else None)"
    by (simp add: load_cache_def save_cache_def Let_def id[symmetric])
  from id ld show ?thesis by simp
qed





section \<open>Properties of the duplicate check\<close>

lemma put_then_lookup:
  "LRUCache_put c k v = Inr c' \<Longrightarrow> map_of (cache c') k = Some v"
  by (auto simp: LRUCache_put_def map_of_setitem split: if_splits sum.splits)

lemma get_hit:
  "map_of (cache c) k = Some v \<Longrightarrow>
   LRUCache_get c k = Inr (Some v, c\<lparr>cache := filter (\<lambda>p. fst p \<noteq> k) (cache c) @ [(k, v)]\<rparr>)"
  by (simp add: LRUCache_get_def move_to_end_def map_of_filter_other map_add_def)

lemma get_miss:
  "map_of (cache c) k = None \<Longrightarrow> LRUCache_get c k = Inr (None, c)"
  by (simp add: LRUCache_get_def)

lemma cache_key_lower:
  "lower bt' = lower bt \<Longrightarrow> cache_key out sz bt' = cache_key out sz bt"
  by (simp add: cache_key_def)

text \<open>
  Claim C8, as the code has it. The memo is keyed by the output target, its size and the
  lower-cased business type; the area set is no part of the key. When a call on an
  existing, non-empty file misses the memo and the fingerprint layer gives a verdict, the
  verdict is stored under that key, and the next call with the same target and size and
  a business type equal up to letter case returns it from the memo: whatever its area
  set, and whatever the layers below would compute, so without scanning the file. The
  stored keys are the same after that call.
\<close>

theorem duplicate_memo:
  assumes ex: "path_exists fs out" and sz: "path_getsize fs out \<noteq> 0"
      and cap: "1 \<le> max_size dc"
      and miss: "map_of (cache dc) (cache_key out (path_getsize fs out) bt) = None"
      and fp: "content_fingerprint layers out bt areas (path_getsize fs out) = (Some dup, cnt)"
      and same: "lower bt' = lower bt"
  shows "\<exists>dc1 dc2.
           check_duplicate_file fs layers dc bt areas out = ((Some dup, cnt), dc1)
         \<and> map_of (cache dc1) (cache_key out (path_getsize fs out) bt)
             = Some \<lparr>is_duplicate = dup, verdict_count = cnt\<rparr>
         \<and> check_duplicate_file fs layers' dc1 bt' areas' out = ((Some dup, cnt), dc2)
         \<and> set (map fst (cache dc2)) = set (map fst (cache dc1))"
proof -
  let ?k = "cache_key out (path_getsize fs out) bt"
  let ?v = "\<lparr>is_duplicate = dup, verdict_count = cnt\<rparr>"
  from put_keys[OF cap, of ?k ?v] obtain dc1 where
    put: "LRUCache_put dc ?k ?v = Inr dc1" by blast
  have l1: "map_of (cache dc1) ?k = Some ?v" using put by (rule put_then_lookup)
  have first: "check_duplicate_file fs layers dc bt areas out = ((Some dup, cnt), dc1)"
    using ex sz by (simp add: check_duplicate_file_def Let_def get_miss[OF miss] fp put)
  let ?dc2 = "dc1\<lparr>cache := filter (\<lambda>p. fst p \<noteq> ?k) (cache dc1) @ [(?k, ?v)]\<rparr>"
  have second: "check_duplicate_file fs layers' dc1 bt' areas' out = ((Some dup, cnt), ?dc2)"
    using ex sz
    by (simp add: check_duplicate_file_def Let_def cache_key_lower[OF same] get_hit[OF l1])
  have "?k \<in> set (map fst (cache dc1))" using l1 by (metis map_of_None_iff option.distinct(1))
  then have keys: "set (map fst (cache ?dc2)) = set (map fst (cache dc1))" by auto
  from first l1 second keys show ?thesis by blast
qed

text \<open>
  Claim C8, witness: the empty consolidated cache, a file of 1000 bytes on which the
  fingerprint layer answers \<open>(True, 120)\<close>.
\<close>

theorem duplicate_memo_witness:
  "let fs = \<lparr>path_exists = (\<lambda>p. p = ''r.csv''), path_getsize = (\<lambda>p. 1000),
              existing_data_count = (\<lambda>p. 120), existing_data_count_lightning = (\<lambda>p. 120)\<rparr>;
       scan = \<lparr>content_fingerprint = (\<lambda>p b a s. (Some True, Some 120)),
                duplicate_streaming = (\<lambda>p b a s. (Some False, Some 0)),
                duplicate_cached_pandas = (\<lambda>p b a. (Some False, Some 0))\<rparr>;
       first = check_duplicate_file fs scan duplicate_cache_init ''Restaurant'' [] ''r.csv''
   in path_exists fs ''r.csv'' \<and> path_getsize fs ''r.csv'' \<noteq> 0
    \<and> 1 \<le> max_size (duplicate_cache_init :: (string, cached_verdict) LRUCache)
    \<and> lower ''restaurant'' = lower ''Restaurant''
    \<and> fst first = (Some True, Some 120)
    \<and> fst (check_duplicate_file fs scan (snd first) ''restaurant'' [] ''r.csv'') = (Some True, Some 120)"
proof -
  define fs where "fs = \<lparr>path_exists = (\<lambda>p. p = ''r.csv''), path_getsize = (\<lambda>p. 1000::int),
              existing_data_count = (\<lambda>p. 120::int), existing_data_count_lightning = (\<lambda>p. 120::int)\<rparr>"
  define scan where "scan = \<lparr>content_fingerprint = (\<lambda>p b a s. (Some True, Some 120)),
                duplicate_streaming = (\<lambda>p b a s. (Some False, Some 0)),
                duplicate_cached_pandas = (\<lambda>p b a. (Some False, Some 0))\<rparr>"
  have ex: "path_exists fs ''r.csv''" and sz: "path_getsize fs ''r.csv'' \<noteq> 0"
    by (simp_all add: fs_def)
  have cap: "1 \<le> max_size (duplicate_cache_init :: (string, cached_verdict) LRUCache)"
    by (simp add: duplicate_cache_init_def LRUCache_init_def)
  have miss: "map_of (cache (duplicate_cache_init :: (string, cached_verdict) LRUCache))
                (cache_key ''r.csv'' (path_getsize fs ''r.csv'') ''Restaurant'') = None"
    by (simp add: duplicate_cache_init_def LRUCache_init_def)
  have fp: "content_fingerprint scan ''r.csv'' ''Restaurant'' [] (path_getsize fs ''r.csv'')
              = (Some True, Some 120)"
    by (simp add: scan_def)
  have same: "lower ''restaurant'' = lower ''Restaurant''"
    by (simp add: lower_def lower_char_def)
  from duplicate_memo[OF ex sz cap miss fp same, of scan "[]"]
  have r: "fst (check_duplicate_file fs scan duplicate_cache_init ''Restaurant'' [] ''r.csv'')
             = (Some True, Some 120)"
    "fst (check_duplicate_file fs scan
            (snd (check_duplicate_file fs scan duplicate_cache_init ''Restaurant'' [] ''r.csv''))
            ''restaurant'' [] ''r.csv'') = (Some True, Some 120)"
    by auto
  show ?thesis
    unfolding Let_def fs_def[symmetric] scan_def[symmetric]
    using ex sz cap same r by (intro conjI)
qed

text \<open>
  Claim C8 as stated fails: a call for the area set \<open>midtown\<close> stores its verdict
  under a key that names no area, and a call for the area set \<open>downtown\<close> returns
  that verdict from the memo, even if the layers below would answer otherwise.
\<close>

theorem area_set_not_in_key_counterexample:
  "let fs = \<lparr>path_exists = (\<lambda>p. p = ''r.csv''), path_getsize = (\<lambda>p. 1000),
              existing_data_count = (\<lambda>p. 120), existing_data_count_lightning = (\<lambda>p. 120)\<rparr>;
       scan = \<lparr>content_fingerprint = (\<lambda>p b a s. (Some True, Some 120)),
                duplicate_streaming = (\<lambda>p b a s. (Some False, Some 0)),
                duplicate_cached_pandas = (\<lambda>p b a. (Some False, Some 0))\<rparr>;
       other = \<lparr>content_fingerprint = (\<lambda>p b a s. (Some False, Some 3)),
                 duplicate_streaming = (\<lambda>p b a s. (Some False, Some 0)),
                 duplicate_cached_pandas = (\<lambda>p b a. (Some False, Some 0))\<rparr>;
       first = check_duplicate_file fs scan duplicate_cache_init ''restaurant'' [''midtown''] ''r.csv'';
       second = check_duplicate_file fs other (snd first) ''restaurant'' [''downtown''] ''r.csv''
   in fst first = (Some True, Some 120)
    \<and> cache (snd first)
        = [(''r.csv:1000:restaurant'', \<lparr>is_duplicate = True, verdict_count = Some 120\<rparr>)]
    \<and> fst second = (Some True, Some 120)
    \<and> cache (snd second) = cache (snd first)"
  by (simp add: check_duplicate_file_def Let_def duplicate_cache_init_def LRUCache_init_def
      LRUCache_get_def LRUCache_put_def move_to_end_def setitem_def
      cache_key_def str_int_def digits_of.simps lower_def lower_char_def)


end
